theory Spec2Isabelle
  imports Main
begin

section \<open>Errors, kinds and types\<close>

text \<open>
  The four sentinel errors of \<^verbatim>\<open>metadata.go\<close> (lines 13--17). A Go function returning
  \<^verbatim>\<open>error\<close> is modelled as returning \<open>error option\<close>: \<open>None\<close> is \<^verbatim>\<open>nil\<close>. The fifth
  constructor, \<open>Panic\<close>, is not a value of type \<^verbatim>\<open>error\<close>: it stands for a run-time panic,
  which ends the call where it happens. The package recovers from none, so every
  function hands a \<open>Panic\<close> on to its caller as it is.
\<close>

datatype error =
  ErrUnsupportedType | ErrConversion | ErrNotStructPointer | ErrValueMissing | Panic

text \<open>The constants of \<^verbatim>\<open>reflect.Kind\<close>.\<close>

datatype kind =
    KInvalid | KBool
  | KInt | KInt8 | KInt16 | KInt32 | KInt64
  | KUint | KUint8 | KUint16 | KUint32 | KUint64 | KUintptr
  | KFloat32 | KFloat64 | KComplex64 | KComplex128
  | KArray | KChan | KFunc | KInterface | KMap | KPointer | KSlice | KString | KStruct
  | KUnsafePointer

text \<open>
  The types a struct field can have in this model: the predeclared scalar types,
  \<^verbatim>\<open>time.Duration\<close> (a defined type whose underlying type is \<^verbatim>\<open>int64\<close>), slices of any
  modelled type, and struct types (identified by their name). Other defined types,
  pointers, maps, arrays, channels, functions and interfaces are not modelled.
\<close>

datatype gotype =
    TString | TBool
  | TInt | TInt8 | TInt16 | TInt32 | TInt64
  | TUint | TUint8 | TUint16 | TUint32 | TUint64
  | TFloat32 | TFloat64 | TComplex64 | TComplex128
  | TDuration
  | TSlice gotype
  | TStruct string

text \<open>\<^verbatim>\<open>reflect.Type.Kind()\<close>.\<close>

fun Kind :: "gotype \<Rightarrow> kind" where
  "Kind TString = KString"
| "Kind TBool = KBool"
| "Kind TInt = KInt"
| "Kind TInt8 = KInt8"
| "Kind TInt16 = KInt16"
| "Kind TInt32 = KInt32"
| "Kind TInt64 = KInt64"
| "Kind TUint = KUint"
| "Kind TUint8 = KUint8"
| "Kind TUint16 = KUint16"
| "Kind TUint32 = KUint32"
| "Kind TUint64 = KUint64"
| "Kind TFloat32 = KFloat32"
| "Kind TFloat64 = KFloat64"
| "Kind TComplex64 = KComplex64"
| "Kind TComplex128 = KComplex128"
| "Kind TDuration = KInt64"
| "Kind (TSlice t) = KSlice"
| "Kind (TStruct n) = KStruct"

text \<open>\<^verbatim>\<open>reflect.Type.String()\<close>.\<close>

fun TypeString :: "gotype \<Rightarrow> string" where
  "TypeString TString = ''string''"
| "TypeString TBool = ''bool''"
| "TypeString TInt = ''int''"
| "TypeString TInt8 = ''int8''"
| "TypeString TInt16 = ''int16''"
| "TypeString TInt32 = ''int32''"
| "TypeString TInt64 = ''int64''"
| "TypeString TUint = ''uint''"
| "TypeString TUint8 = ''uint8''"
| "TypeString TUint16 = ''uint16''"
| "TypeString TUint32 = ''uint32''"
| "TypeString TUint64 = ''uint64''"
| "TypeString TFloat32 = ''float32''"
| "TypeString TFloat64 = ''float64''"
| "TypeString TComplex64 = ''complex64''"
| "TypeString TComplex128 = ''complex128''"
| "TypeString TDuration = ''time.Duration''"
| "TypeString (TSlice t) = ''[]'' @ TypeString t"
| "TypeString (TStruct n) = n"

section \<open>The Go standard library functions the package calls\<close>

text \<open>
  Go strings are byte sequences; \<open>string\<close> is a list of 8-bit characters. The functions
  of this section are those of the Go standard library that \<^verbatim>\<open>metadata.go\<close> calls,
  written after the library's sources for the arguments the package passes (base 10,
  the separator \<^verbatim>\<open>","\<close>).
\<close>

subsection \<open>Decimal digits\<close>

definition isDigit :: "char \<Rightarrow> bool" where
  "isDigit c \<longleftrightarrow> (48::nat) \<le> of_char c \<and> (of_char c :: nat) \<le> 57"

definition digitVal :: "char \<Rightarrow> nat" where
  "digitVal c = of_char c - 48"

definition digitChar :: "nat \<Rightarrow> char" where
  "digitChar d = char_of (48 + d)"

subsection \<open>strconv\<close>

text \<open>
  \<^verbatim>\<open>strconv.ParseBool\<close>: the six spellings of each truth value, anything else is an
  error.
\<close>

definition ParseBool :: "string \<Rightarrow> bool option" where
  "ParseBool str =
     (if str \<in> set [''1'', ''t'', ''T'', ''TRUE'', ''true'', ''True''] then Some True
      else if str \<in> set [''0'', ''f'', ''F'', ''FALSE'', ''false'', ''False''] then Some False
      else None)"

text \<open>
  \<^verbatim>\<open>strconv.ParseUint(s, 10, bitSize)\<close> for \<open>0 < bitSize \<le> 64\<close>. The accumulator is a
  \<^verbatim>\<open>uint64\<close>: the addition of the digit wraps modulo \<open>2 ^ 64\<close> and the library detects
  it by \<^verbatim>\<open>n1 < n\<close>. On a range error the library returns \<open>maxVal\<close> beside the error.
\<close>

datatype numerr = ErrSyntax | ErrRange

fun ParseUint_loop :: "nat \<Rightarrow> string \<Rightarrow> nat \<Rightarrow> numerr + nat" where
  "ParseUint_loop maxVal [] n = Inr n"
| "ParseUint_loop maxVal (c # cs) n =
     (if \<not> isDigit c then Inl ErrSyntax
      else if n \<ge> (2 ^ 64 - 1) div 10 + 1 then Inl ErrRange
      else
        let n' = n * 10;
            n1 = (n' + digitVal c) mod 2 ^ 64
        in if n1 < n' \<or> n1 > maxVal then Inl ErrRange
           else ParseUint_loop maxVal cs n1)"

definition ParseUint :: "string \<Rightarrow> nat \<Rightarrow> numerr + nat" where
  "ParseUint s bitSize =
     (if s = [] then Inl ErrSyntax else ParseUint_loop (2 ^ bitSize - 1) s 0)"

text \<open>
  \<^verbatim>\<open>strconv.ParseInt(s, 10, bitSize)\<close>: an optional sign, then \<^verbatim>\<open>ParseUint\<close>; a range
  error of \<^verbatim>\<open>ParseUint\<close> continues with \<open>maxVal\<close> and fails the cutoff test below.
  The result is the mathematical integer; it fits the requested width.
\<close>

definition ParseInt :: "string \<Rightarrow> nat \<Rightarrow> numerr + int" where
  "ParseInt s0 bitSize =
     (if s0 = [] then Inl ErrSyntax
      else
        let neg = (hd s0 = CHR ''-'');
            s = (if hd s0 = CHR ''+'' \<or> hd s0 = CHR ''-'' then tl s0 else s0);
            cutoff = (2::nat) ^ (bitSize - 1)
        in case ParseUint s bitSize of
             Inl ErrSyntax \<Rightarrow> Inl ErrSyntax
           | r \<Rightarrow>
               let un = (case r of Inr n \<Rightarrow> n | Inl _ \<Rightarrow> 2 ^ bitSize - 1)
               in if \<not> neg \<and> un \<ge> cutoff then Inl ErrRange
                  else if neg \<and> un > cutoff then Inl ErrRange
                  else Inr (if neg then - int un else int un))"

subsection \<open>strings\<close>

text \<open>
  \<^verbatim>\<open>strings.Split(s, sep)\<close> for a non-empty separator: the pieces of \<open>s\<close> between the
  occurrences of \<open>sep\<close>, found from the left; always at least one piece. (With an empty
  separator the library splits after each UTF-8 sequence; the package never asks for
  that, and the model then splits after each byte.)
\<close>

fun Split_loop :: "string \<Rightarrow> string \<Rightarrow> string \<Rightarrow> nat \<Rightarrow> string list" where
  "Split_loop sep cur [] skip = [rev cur]"
| "Split_loop sep cur (c # cs) skip =
     (if skip > 0 then Split_loop sep cur cs (skip - 1)
      else if take (length sep) (c # cs) = sep
        then rev cur # Split_loop sep [] cs (length sep - 1)
        else Split_loop sep (c # cur) cs 0)"

definition Split :: "string \<Rightarrow> string \<Rightarrow> string list" where
  "Split s sep = (if sep = [] then map (\<lambda>c. [c]) s else Split_loop sep [] s 0)"

text \<open>\<^verbatim>\<open>strings.Join(elems, sep)\<close>.\<close>

fun Join :: "string list \<Rightarrow> string \<Rightarrow> string" where
  "Join [] sep = []"
| "Join [x] sep = x"
| "Join (x # y # ys) sep = x @ sep @ Join (y # ys) sep"

subsection \<open>time\<close>

text \<open>
  \<^verbatim>\<open>time.Duration\<close> is an \<^verbatim>\<open>int64\<close> count of nanoseconds. The units, in nanoseconds.
\<close>

definition Microsecond :: nat where "Microsecond = 1000"
definition Millisecond :: nat where "Millisecond = 1000000"
definition Second :: nat where "Second = 1000000000"
definition Minute :: nat where "Minute = 60000000000"
definition Hour :: nat where "Hour = 3600000000000"

text \<open>
  \<^verbatim>\<open>fmtInt\<close> and \<^verbatim>\<open>fmtFrac\<close> of package \<^verbatim>\<open>time\<close> write digits leftwards into
  the tail of a buffer; the model passes the part of the buffer already written and
  returns it extended to the left.
\<close>

function fmtInt_loop :: "string \<Rightarrow> nat \<Rightarrow> string" where
  "fmtInt_loop buf v = (if v > 0 then fmtInt_loop (digitChar (v mod 10) # buf) (v div 10) else buf)"
  by pat_completeness auto
termination
  by (relation "measure (\<lambda>(buf, v). v)") auto

declare fmtInt_loop.simps [simp del]

definition fmtInt :: "string \<Rightarrow> nat \<Rightarrow> string" where
  "fmtInt buf v = (if v = 0 then CHR ''0'' # buf else fmtInt_loop buf v)"

fun fmtFrac_loop :: "nat \<Rightarrow> string \<Rightarrow> nat \<Rightarrow> bool \<Rightarrow> string \<times> nat \<times> bool" where
  "fmtFrac_loop 0 buf v print = (buf, v, print)"
| "fmtFrac_loop (Suc i) buf v print =
     (let digit = v mod 10;
          print' = (print \<or> digit \<noteq> 0);
          buf' = (if print' then digitChar digit # buf else buf)
      in fmtFrac_loop i buf' (v div 10) print')"

definition fmtFrac :: "string \<Rightarrow> nat \<Rightarrow> nat \<Rightarrow> string \<times> nat" where
  "fmtFrac buf v prec =
     (case fmtFrac_loop prec buf v False of
        (buf', v', print) \<Rightarrow> (if print then CHR ''.'' # buf' else buf', v'))"

text \<open>
  \<^verbatim>\<open>Duration.String()\<close>. The magnitude is computed in \<^verbatim>\<open>uint64\<close>:
  \<^verbatim>\<open>u := uint64(d); if neg { u = -u }\<close>, with the wrap-around written out. The micro sign
  is the two bytes \<open>0xC2 0xB5\<close> of its UTF-8 encoding.
\<close>

definition DurationString :: "int \<Rightarrow> string" where
  "DurationString d =
     (let u0 = nat (d mod 2 ^ 64);
          neg = (d < 0);
          u = (if neg then (2 ^ 64 - u0) mod 2 ^ 64 else u0)
      in if u < Second then
           (if u = 0 then ''0s''
            else
              let (prec, buf) =
                    (if u < Microsecond then (0, ''ns'')
                     else if u < Millisecond then (3, [CHR 0xC2, CHR 0xB5, CHR ''s''])
                     else (6, ''ms''));
                  (buf1, u1) = fmtFrac buf u prec;
                  buf2 = fmtInt buf1 u1
              in if neg then CHR ''-'' # buf2 else buf2)
         else
           let (buf1, u1) = fmtFrac ''s'' u 9;
               buf2 = fmtInt buf1 (u1 mod 60);
               u2 = u1 div 60;
               buf3 =
                 (if u2 > 0 then
                    let buf4 = fmtInt (CHR ''m'' # buf2) (u2 mod 60);
                        u3 = u2 div 60
                    in if u3 > 0 then fmtInt (CHR ''h'' # buf4) u3 else buf4
                  else buf2)
           in if neg then CHR ''-'' # buf3 else buf3)"

text \<open>
  \<^verbatim>\<open>time.ParseDuration\<close>, with its helpers \<^verbatim>\<open>leadingInt\<close>, \<^verbatim>\<open>leadingFraction\<close>
  and \<^verbatim>\<open>unitMap\<close>. The grammar is \<^verbatim>\<open>[-+]?([0-9]*(\.[0-9]*)?[a-z]+)+\<close>.
\<close>

fun leadingInt :: "string \<Rightarrow> nat \<Rightarrow> (nat \<times> string) option" where
  "leadingInt [] x = Some (x, [])"
| "leadingInt (c # cs) x =
     (if \<not> isDigit c then Some (x, c # cs)
      else if x > 2 ^ 63 div 10 then None
      else
        let x' = x * 10 + digitVal c
        in if x' > 2 ^ 63 then None else leadingInt cs x')"

fun leadingFraction :: "string \<Rightarrow> nat \<Rightarrow> nat \<Rightarrow> bool \<Rightarrow> nat \<times> nat \<times> string" where
  "leadingFraction [] x scale overflow = (x, scale, [])"
| "leadingFraction (c # cs) x scale overflow =
     (if \<not> isDigit c then (x, scale, c # cs)
      else if overflow then leadingFraction cs x scale overflow
      else if x > (2 ^ 63 - 1) div 10 then leadingFraction cs x scale True
      else
        let y = x * 10 + digitVal c
        in if y > 2 ^ 63 then leadingFraction cs x scale True
           else leadingFraction cs y (scale * 10) False)"

definition unitMap :: "string \<Rightarrow> nat option" where
  "unitMap u =
     (if u = ''ns'' then Some 1
      else if u = ''us'' then Some Microsecond
      else if u = [CHR 0xC2, CHR 0xB5, CHR ''s''] then Some Microsecond
      else if u = [CHR 0xCE, CHR 0xBC, CHR ''s''] then Some Microsecond
      else if u = ''ms'' then Some Millisecond
      else if u = ''s'' then Some Second
      else if u = ''m'' then Some Minute
      else if u = ''h'' then Some Hour
      else None)"

definition unitChar :: "char \<Rightarrow> bool" where
  "unitChar c \<longleftrightarrow> \<not> (c = CHR ''.'' \<or> isDigit c)"

text \<open>
  One round of the loop of \<^verbatim>\<open>ParseDuration\<close>: a number with an optional fraction, then a
  unit. It returns the nanoseconds of this term and the rest of the input. The
  contribution of the fraction is computed by the library in floating point,
  \<^verbatim>\<open>uint64(float64(f) * (float64(unit) / scale))\<close>; it is the parameter \<open>frac\<close>, applied
  to \<open>f\<close>, \<open>scale\<close> (a power of ten) and \<open>unit\<close>, of which nothing is assumed.
\<close>

definition parseDurationTerm ::
  "(nat \<Rightarrow> nat \<Rightarrow> nat \<Rightarrow> nat) \<Rightarrow> string \<Rightarrow> (nat \<times> string) option" where
  "parseDurationTerm frac s =
     (if s = [] \<or> \<not> (hd s = CHR ''.'' \<or> isDigit (hd s)) then None
      else
        case leadingInt s 0 of
          None \<Rightarrow> None
        | Some (v, s1) \<Rightarrow>
            (case (if s1 \<noteq> [] \<and> hd s1 = CHR ''.''
                   then leadingFraction (tl s1) 0 1 False else (0, 1, s1)) of
               (f, scale, s2) \<Rightarrow>
                 let pre = (length s \<noteq> length s1);
                     post = (s1 \<noteq> [] \<and> hd s1 = CHR ''.'' \<and> length (tl s1) \<noteq> length s2)
                 in if \<not> pre \<and> \<not> post then None
                    else
                      let u = takeWhile unitChar s2;
                          s3 = dropWhile unitChar s2
                      in if u = [] then None
                         else
                           (case unitMap u of
                              None \<Rightarrow> None
                            | Some unit \<Rightarrow>
                                if v > 2 ^ 63 div unit then None
                                else
                                  let v1 = v * unit;
                                      v2 = (if f > 0 then (v1 + frac f scale unit) mod 2 ^ 64
                                            else v1)
                                  in if f > 0 \<and> v2 > 2 ^ 63 then None else Some (v2, s3))))"

function ParseDuration_loop ::
  "(nat \<Rightarrow> nat \<Rightarrow> nat \<Rightarrow> nat) \<Rightarrow> string \<Rightarrow> nat \<Rightarrow> nat option" where
  "ParseDuration_loop frac s d =
     (if s = [] then Some d
      else
        case parseDurationTerm frac s of
          None \<Rightarrow> None
        | Some (v, rest) \<Rightarrow>
            let d' = (d + v) mod 2 ^ 64
            in if d' > 2 ^ 63 then None else ParseDuration_loop frac rest d')"
  by pat_completeness auto
termination
proof (relation "measure (\<lambda>(frac, s, d). length s)")
  show "wf (measure (\<lambda>(frac, s, d). length s))"
    by simp
next
  fix frac :: "nat \<Rightarrow> nat \<Rightarrow> nat \<Rightarrow> nat" and s :: string and d :: nat
    and x2 :: "nat \<times> string" and v :: nat and rest :: string and d' :: nat
  assume pt: "parseDurationTerm frac s = Some x2" and x2: "(v, rest) = x2"
  have li: "leadingInt t x = Some (w, r) \<Longrightarrow> length r \<le> length t" for t x w r
    by (induction t x rule: leadingInt.induct) (auto simp: Let_def split: if_splits)
  have lf: "leadingFraction t x sc ov = (w, sc', r) \<Longrightarrow> length r \<le> length t" for t x sc ov w sc' r
    apply (induction t x sc ov rule: leadingFraction.induct)
     apply simp
    apply (simp add: Let_def split: if_splits)
    apply (auto simp: le_SucI)
    done
  have dw: "takeWhile unitChar t \<noteq> [] \<Longrightarrow> length (dropWhile unitChar t) < length t" for t
    by (cases t) (auto simp: le_imp_less_Suc length_dropWhile_le split: if_splits)
  from pt x2 obtain w s1 where l1: "leadingInt s 0 = Some (w, s1)"
    by (auto simp: parseDurationTerm_def split: if_splits option.splits)
  obtain f sc s2 where l2:
    "(if s1 \<noteq> [] \<and> hd s1 = CHR ''.'' then leadingFraction (tl s1) 0 1 False else (0, 1, s1))
       = (f, sc, s2)"
    by (metis prod_cases3)
  have s2: "length s2 \<le> length s1"
  proof (cases "s1 \<noteq> [] \<and> hd s1 = CHR ''.''")
    case True
    with l2 have "leadingFraction (tl s1) 0 1 False = (f, sc, s2)" by simp
    then have "length s2 \<le> length (tl s1)" by (rule lf)
    then show ?thesis by simp
  next
    case False
    with l2 show ?thesis by auto
  qed
  from pt x2 l1 l2 have "takeWhile unitChar s2 \<noteq> [] \<and> rest = dropWhile unitChar s2"
    by (auto simp: parseDurationTerm_def Let_def split: if_splits option.splits)
  with dw have "length rest < length s2" by simp
  with s2 li [OF l1] have "length rest < length s" by simp
  then show "((frac, rest, d'), frac, s, d) \<in> measure (\<lambda>(frac, s, d). length s)"
    by simp
qed

declare ParseDuration_loop.simps [simp del]

text \<open>
  \<^verbatim>\<open>time.ParseDuration\<close>. In \<^verbatim>\<open>-Duration(d)\<close> the loop has left \<open>d \<le> 2 ^ 63\<close>, so the
  result is the integer \<open>- d\<close>, which fits \<^verbatim>\<open>int64\<close>.
\<close>

definition ParseDuration :: "(nat \<Rightarrow> nat \<Rightarrow> nat \<Rightarrow> nat) \<Rightarrow> string \<Rightarrow> int option" where
  "ParseDuration frac s0 =
     (let signed = (s0 \<noteq> [] \<and> (hd s0 = CHR ''-'' \<or> hd s0 = CHR ''+''));
          neg = (signed \<and> hd s0 = CHR ''-'');
          s = (if signed then tl s0 else s0)
      in if s = ''0'' then Some 0
         else if s = [] then None
         else
           case ParseDuration_loop frac s 0 of
             None \<Rightarrow> None
           | Some d \<Rightarrow>
               if neg then Some (- int d)
               else if d > 2 ^ 63 - 1 then None
               else Some (int d))"

subsection \<open>Floating point, as a parameter\<close>

text \<open>
  The floating-point functions of the library are not modelled: they are the fields of
  a record that every function of the package takes as its first argument, and nothing
  is assumed of them. \<open>'f\<close> stands for \<^verbatim>\<open>float64\<close>; a \<^verbatim>\<open>float32\<close> is the \<^verbatim>\<open>float64\<close> of
  the same value, and a complex number is a pair. \<open>ParseFloat\<close> and \<open>ParseComplex\<close> are
  \<^verbatim>\<open>strconv.ParseFloat(s, bitSize)\<close> and \<^verbatim>\<open>strconv.ParseComplex(s, bitSize)\<close>,
  \<open>FormatFloat\<close> and \<open>FormatComplex\<close> are what \<^verbatim>\<open>fmt.Sprint\<close> prints for a float and a
  complex number of the given size, \<open>DurationFrac\<close> is the fraction in
  \<^verbatim>\<open>time.ParseDuration\<close>.
\<close>

record 'f floating =
  ParseFloat :: "string \<Rightarrow> nat \<Rightarrow> 'f option"
  ParseComplex :: "string \<Rightarrow> nat \<Rightarrow> ('f \<times> 'f) option"
  FormatFloat :: "'f \<Rightarrow> nat \<Rightarrow> string"
  FormatComplex :: "'f \<times> 'f \<Rightarrow> nat \<Rightarrow> string"
  DurationFrac :: "nat \<Rightarrow> nat \<Rightarrow> nat \<Rightarrow> nat"

subsection \<open>Values and fmt.Sprint\<close>

text \<open>
  What a \<^verbatim>\<open>reflect.Value\<close> holds. \<open>DInt\<close> is a signed integer of any width and \<open>DUint\<close>
  an unsigned one, as mathematical integers; \<open>DDuration\<close> is a \<^verbatim>\<open>time.Duration\<close>, kept
  apart from \<open>DInt\<close> because it has a \<^verbatim>\<open>String\<close> method. A slice is the list of its
  elements: \<^verbatim>\<open>nil\<close> and the empty slice are both \<open>DSlice []\<close> (the package only takes
  their length, which is 0 for both). A struct is the list of its fields, each with
  the flag that says whether the field is exported.
\<close>

datatype 'f datum =
    DString string
  | DBool bool
  | DInt int
  | DUint nat
  | DDuration int
  | DFloat32 'f
  | DFloat64 'f
  | DComplex64 "'f \<times> 'f"
  | DComplex128 "'f \<times> 'f"
  | DSlice "'f datum list"
  | DStruct "(bool \<times> 'f datum) list"

text \<open>Decimal formatting of integers by \<^verbatim>\<open>fmt\<close> (verb \<^verbatim>\<open>%v\<close>).\<close>

definition FormatUint :: "nat \<Rightarrow> string" where
  "FormatUint n = fmtInt [] n"

definition FormatInt :: "int \<Rightarrow> string" where
  "FormatInt i = (if i < 0 then CHR ''-'' # FormatUint (nat (- i)) else FormatUint (nat i))"

text \<open>
  \<^verbatim>\<open>fmt.Sprint(v)\<close> for one operand \<open>v\<close> that is a \<^verbatim>\<open>reflect.Value\<close>, as \<^verbatim>\<open>Marshal\<close>
  calls it. \<open>canInterface\<close> is \<^verbatim>\<open>v.CanInterface()\<close>: whether \<open>v\<close> was obtained without
  going through an unexported struct field. When it is, \<^verbatim>\<open>fmt\<close> extracts the value and
  uses its \<^verbatim>\<open>String\<close> method if it has one: a \<^verbatim>\<open>time.Duration\<close> prints as
  \<^verbatim>\<open>Duration.String()\<close>. When it is not, \<^verbatim>\<open>fmt\<close> prints by the kind of the value: a
  \<^verbatim>\<open>time.Duration\<close> prints as the decimal \<^verbatim>\<open>int64\<close>. The elements of a slice are obtained
  as the slice was; a field of a struct is obtained through an unexported field if the
  struct was or if the field is unexported. Elements and fields are separated by a
  space.
\<close>

fun Sprint :: "'f floating \<Rightarrow> bool \<Rightarrow> 'f datum \<Rightarrow> string" where
  "Sprint L canInterface (DString s) = s"
| "Sprint L canInterface (DBool b) = (if b then ''true'' else ''false'')"
| "Sprint L canInterface (DInt i) = FormatInt i"
| "Sprint L canInterface (DUint n) = FormatUint n"
| "Sprint L canInterface (DDuration d) = (if canInterface then DurationString d else FormatInt d)"
| "Sprint L canInterface (DFloat32 x) = FormatFloat L x 32"
| "Sprint L canInterface (DFloat64 x) = FormatFloat L x 64"
| "Sprint L canInterface (DComplex64 z) = FormatComplex L z 64"
| "Sprint L canInterface (DComplex128 z) = FormatComplex L z 128"
| "Sprint L canInterface (DSlice xs) =
     ''['' @ Join (map (Sprint L canInterface) xs) '' '' @ '']''"
| "Sprint L canInterface (DStruct fs) =
     ''{'' @ Join (map (\<lambda>(exported, x). Sprint L (canInterface \<and> exported) x) fs) '' '' @ ''}''"

section \<open>The data of the package\<close>

text \<open>
  A field of the struct behind \<^verbatim>\<open>data\<close>: its static type, its tag, whether it is
  exported, and the value it holds. A struct tag is the list of its \<^verbatim>\<open>key:"value"\<close>
  pairs; \<^verbatim>\<open>Tag.Lookup\<close> returns the value of the first pair with the key.
\<close>

record 'f field =
  ftype :: gotype
  ftag :: "(string \<times> string) list"
  fexported :: bool
  fvalue :: "'f datum"

text \<open>
  The setters of \<^verbatim>\<open>reflect.Value\<close> that the package calls (\<^verbatim>\<open>SetString\<close>, \<^verbatim>\<open>SetBool\<close>,
  \<^verbatim>\<open>SetInt\<close>, \<^verbatim>\<open>SetUint\<close>, \<^verbatim>\<open>SetFloat\<close>, \<^verbatim>\<open>SetComplex\<close>, \<^verbatim>\<open>Set\<close>), applied to the
  \<^verbatim>\<open>reflect.Value\<close> of a field of the struct behind the pointer \<^verbatim>\<open>data\<close>: the value is
  addressable, and the setter stores into an exported field and panics on an unexported
  one. The package passes a value of the field's kind.
\<close>

definition SetValue :: "'f field \<Rightarrow> 'f datum \<Rightarrow> error option \<times> 'f field" where
  "SetValue field x =
     (if fexported field then (None, field\<lparr>fvalue := x\<rparr>) else (Some Panic, field))"

definition Lookup :: "(string \<times> string) list \<Rightarrow> string \<Rightarrow> string option" where
  "Lookup tag key = map_of tag key"

text \<open>
  The tag resolution that opens the loop bodies of \<^verbatim>\<open>Unmarshal\<close> (lines 58--69) and
  \<^verbatim>\<open>Marshal\<close> (lines 111--121): the annotation tag is looked up first and selects the
  annotations, otherwise the label tag selects the labels, otherwise the field is
  skipped.
\<close>

datatype dictionary = TheAnnotations | TheLabels

definition lookupTag :: "(string \<times> string) list \<Rightarrow> (dictionary \<times> string) option" where
  "lookupTag tag =
     (case Lookup tag ''annotation'' of
        Some t \<Rightarrow> Some (TheAnnotations, t)
      | None \<Rightarrow>
          (case Lookup tag ''label'' of
             Some t \<Rightarrow> Some (TheLabels, t)
           | None \<Rightarrow> None))"

text \<open>\<^verbatim>\<open>Len()\<close> and \<^verbatim>\<open>Index(i)\<close> of a value of kind slice: its elements in order.\<close>

fun elems :: "'f datum \<Rightarrow> 'f datum list" where
  "elems (DSlice xs) = xs"
| "elems d = []"

text \<open>
  The argument \<^verbatim>\<open>data interface{}\<close>: something that is not a pointer, a pointer to
  something that is not a struct, or a pointer to a struct, given by its fields in
  declaration order.
\<close>

datatype 'f iface = NotPointer | PointerToOther | PointerToStruct "'f field list"

text \<open>
  The two dictionaries of \<^verbatim>\<open>v1.ObjectMeta\<close>, the fields \<^verbatim>\<open>Labels\<close> and \<^verbatim>\<open>Annotations\<close>. A
  Go map value is \<^verbatim>\<open>nil\<close> (\<open>None\<close>) or a reference to a map object, and the two fields
  can refer to the same object: what is written through one is then read through the
  other. So an \<^verbatim>\<open>ObjectMeta\<close> is one of two things: \<open>TwoMaps labels annotations\<close>, where
  each field is \<^verbatim>\<open>nil\<close> or refers to a map object of its own, with the given contents;
  or \<open>OneMap m\<close>, where both fields refer to one map object with the contents \<open>m\<close>.
  \<open>Labels\<close> and \<open>Annotations\<close> read a field: \<^verbatim>\<open>nil\<close> or the contents of the map object.
\<close>

datatype ObjectMeta =
    TwoMaps "(string \<rightharpoonup> string) option" "(string \<rightharpoonup> string) option"
  | OneMap "string \<rightharpoonup> string"

fun Labels :: "ObjectMeta \<Rightarrow> (string \<rightharpoonup> string) option" where
  "Labels (TwoMaps labels annotations) = labels"
| "Labels (OneMap m) = Some m"

fun Annotations :: "ObjectMeta \<Rightarrow> (string \<rightharpoonup> string) option" where
  "Annotations (TwoMaps labels annotations) = annotations"
| "Annotations (OneMap m) = Some m"

definition dictOf :: "ObjectMeta \<Rightarrow> dictionary \<Rightarrow> (string \<rightharpoonup> string) option" where
  "dictOf metadata which =
     (case which of TheAnnotations \<Rightarrow> Annotations metadata | TheLabels \<Rightarrow> Labels metadata)"

text \<open>\<^verbatim>\<open>value, ok := dict[key]\<close>: a \<^verbatim>\<open>nil\<close> map has no key.\<close>

definition mapIndex :: "(string \<rightharpoonup> string) option \<Rightarrow> string \<Rightarrow> string option" where
  "mapIndex dict key = (case dict of None \<Rightarrow> None | Some m \<Rightarrow> m key)"

text \<open>
  \<^verbatim>\<open>dict[key] = value\<close>, where \<open>dict\<close> is the map that the field \<^verbatim>\<open>Annotations\<close> or
  \<^verbatim>\<open>Labels\<close> of the metadata refers to (\<^verbatim>\<open>dict := metadata.Annotations\<close>, line 111, or
  \<^verbatim>\<open>dict = metadata.Labels\<close>, line 120). The map object is updated in place, so with
  one map object behind both fields the entry is in both. Assigning to an entry of a
  \<^verbatim>\<open>nil\<close> map panics: the result is \<open>None\<close>.
\<close>

fun mapAssign :: "ObjectMeta \<Rightarrow> dictionary \<Rightarrow> string \<Rightarrow> string \<Rightarrow> ObjectMeta option" where
  "mapAssign (OneMap m) which key value = Some (OneMap (m(key \<mapsto> value)))"
| "mapAssign (TwoMaps labels annotations) TheLabels key value =
     (case labels of
        None \<Rightarrow> None
      | Some m \<Rightarrow> Some (TwoMaps (Some (m(key \<mapsto> value))) annotations))"
| "mapAssign (TwoMaps labels annotations) TheAnnotations key value =
     (case annotations of
        None \<Rightarrow> None
      | Some m \<Rightarrow> Some (TwoMaps labels (Some (m(key \<mapsto> value)))))"

text \<open>
  Lines 99--105 of \<^verbatim>\<open>Marshal\<close>: a field that is \<^verbatim>\<open>nil\<close> receives a new, empty map object
  (\<^verbatim>\<open>make(map[string]string)\<close>).
\<close>

fun makeMaps :: "ObjectMeta \<Rightarrow> ObjectMeta" where
  "makeMaps (TwoMaps labels annotations) =
     TwoMaps (Some (case labels of None \<Rightarrow> Map.empty | Some m \<Rightarrow> m))
             (Some (case annotations of None \<Rightarrow> Map.empty | Some m \<Rightarrow> m))"
| "makeMaps (OneMap m) = OneMap m"

section \<open>metadata.go\<close>

subsection \<open>The element parsers (lines 311--415)\<close>

text \<open>
  Each parser appends the converted elements to a local slice and returns
  \<^verbatim>\<open>nil, ErrConversion\<close> at the first element that does not convert. \<^verbatim>\<open>int\<close> and
  \<^verbatim>\<open>uint\<close> are 64 bits wide, so \<^verbatim>\<open>int(intValue)\<close> and \<^verbatim>\<open>uint(uintValue)\<close> keep the value.
\<close>

fun parseBools_loop :: "string list \<Rightarrow> bool list \<Rightarrow> error + bool list" where
  "parseBools_loop [] boolSlice = Inr boolSlice"
| "parseBools_loop (v # data) boolSlice =
     (case ParseBool v of
        None \<Rightarrow> Inl ErrConversion
      | Some bValue \<Rightarrow> parseBools_loop data (boolSlice @ [bValue]))"

definition parseBools :: "string list \<Rightarrow> error + bool list" where
  "parseBools data = parseBools_loop data []"

fun parseInts_loop :: "string list \<Rightarrow> int list \<Rightarrow> error + int list" where
  "parseInts_loop [] intSlice = Inr intSlice"
| "parseInts_loop (v # data) intSlice =
     (case ParseInt v 32 of
        Inl err \<Rightarrow> Inl ErrConversion
      | Inr intValue \<Rightarrow> parseInts_loop data (intSlice @ [intValue]))"

definition parseInts :: "string list \<Rightarrow> error + int list" where
  "parseInts data = parseInts_loop data []"

fun parseUints_loop :: "string list \<Rightarrow> nat list \<Rightarrow> error + nat list" where
  "parseUints_loop [] uintSlice = Inr uintSlice"
| "parseUints_loop (v # data) uintSlice =
     (case ParseUint v 32 of
        Inl err \<Rightarrow> Inl ErrConversion
      | Inr uintValue \<Rightarrow> parseUints_loop data (uintSlice @ [uintValue]))"

definition parseUints :: "string list \<Rightarrow> error + nat list" where
  "parseUints data = parseUints_loop data []"

fun parseInt64s_loop :: "string list \<Rightarrow> int list \<Rightarrow> error + int list" where
  "parseInt64s_loop [] intSlice = Inr intSlice"
| "parseInt64s_loop (v # data) intSlice =
     (case ParseInt v 64 of
        Inl err \<Rightarrow> Inl ErrConversion
      | Inr intValue \<Rightarrow> parseInt64s_loop data (intSlice @ [intValue]))"

definition parseInt64s :: "string list \<Rightarrow> error + int list" where
  "parseInt64s data = parseInt64s_loop data []"

fun parseUint64s_loop :: "string list \<Rightarrow> nat list \<Rightarrow> error + nat list" where
  "parseUint64s_loop [] uintSlice = Inr uintSlice"
| "parseUint64s_loop (v # data) uintSlice =
     (case ParseUint v 64 of
        Inl err \<Rightarrow> Inl ErrConversion
      | Inr uintValue \<Rightarrow> parseUint64s_loop data (uintSlice @ [uintValue]))"

definition parseUint64s :: "string list \<Rightarrow> error + nat list" where
  "parseUint64s data = parseUint64s_loop data []"

fun parseFloat32s_loop :: "'f floating \<Rightarrow> string list \<Rightarrow> 'f list \<Rightarrow> error + 'f list" where
  "parseFloat32s_loop L [] float32Slice = Inr float32Slice"
| "parseFloat32s_loop L (v # data) float32Slice =
     (case ParseFloat L v 32 of
        None \<Rightarrow> Inl ErrConversion
      | Some x \<Rightarrow> parseFloat32s_loop L data (float32Slice @ [x]))"

definition parseFloat32s :: "'f floating \<Rightarrow> string list \<Rightarrow> error + 'f list" where
  "parseFloat32s L data = parseFloat32s_loop L data []"

fun parseFloat64s_loop :: "'f floating \<Rightarrow> string list \<Rightarrow> 'f list \<Rightarrow> error + 'f list" where
  "parseFloat64s_loop L [] float64Slice = Inr float64Slice"
| "parseFloat64s_loop L (v # data) float64Slice =
     (case ParseFloat L v 64 of
        None \<Rightarrow> Inl ErrConversion
      | Some x \<Rightarrow> parseFloat64s_loop L data (float64Slice @ [x]))"

definition parseFloat64s :: "'f floating \<Rightarrow> string list \<Rightarrow> error + 'f list" where
  "parseFloat64s L data = parseFloat64s_loop L data []"

fun parseDurations_loop :: "'f floating \<Rightarrow> string list \<Rightarrow> int list \<Rightarrow> error + int list" where
  "parseDurations_loop L [] durationSlice = Inr durationSlice"
| "parseDurations_loop L (v # data) durationSlice =
     (case ParseDuration (DurationFrac L) v of
        None \<Rightarrow> Inl ErrConversion
      | Some dValue \<Rightarrow> parseDurations_loop L data (durationSlice @ [dValue]))"

definition parseDurations :: "'f floating \<Rightarrow> string list \<Rightarrow> error + int list" where
  "parseDurations L data = parseDurations_loop L data []"

subsection \<open>handleSlice (lines 246--309)\<close>

text \<open>
  \<^verbatim>\<open>handleSlice(field, value, separator)\<close> sets the field or returns an error. The model
  takes the field and returns the error and the field as the call leaves it.
  \<^verbatim>\<open>field.Type()\<close> is compared with the nine slice types of lines 19--27; \<^verbatim>\<open>field.Set\<close> is
  \<open>SetValue\<close>.
\<close>

definition handleSlice ::
  "'f floating \<Rightarrow> 'f field \<Rightarrow> string \<Rightarrow> string \<Rightarrow> error option \<times> 'f field" where
  "handleSlice L field value separator =
     (let separator = (if separator = [] then '','' else separator);
          splitData = Split value separator
      in if ftype field = TSlice TString then
           SetValue field (DSlice (map DString splitData))
         else if ftype field = TSlice TBool then
           (case parseBools splitData of
              Inl err \<Rightarrow> (Some ErrConversion, field)
            | Inr boolData \<Rightarrow> SetValue field (DSlice (map DBool boolData)))
         else if ftype field = TSlice TInt then
           (case parseInts splitData of
              Inl err \<Rightarrow> (Some ErrConversion, field)
            | Inr intData \<Rightarrow> SetValue field (DSlice (map DInt intData)))
         else if ftype field = TSlice TUint then
           (case parseUints splitData of
              Inl err \<Rightarrow> (Some ErrConversion, field)
            | Inr intData \<Rightarrow> SetValue field (DSlice (map DUint intData)))
         else if ftype field = TSlice TInt64 then
           (case parseInt64s splitData of
              Inl err \<Rightarrow> (Some ErrConversion, field)
            | Inr int64Data \<Rightarrow> SetValue field (DSlice (map DInt int64Data)))
         else if ftype field = TSlice TUint64 then
           (case parseUint64s splitData of
              Inl err \<Rightarrow> (Some ErrConversion, field)
            | Inr uint64Data \<Rightarrow> SetValue field (DSlice (map DUint uint64Data)))
         else if ftype field = TSlice TFloat32 then
           (case parseFloat32s L splitData of
              Inl err \<Rightarrow> (Some ErrConversion, field)
            | Inr data \<Rightarrow> SetValue field (DSlice (map DFloat32 data)))
         else if ftype field = TSlice TFloat64 then
           (case parseFloat64s L splitData of
              Inl err \<Rightarrow> (Some ErrConversion, field)
            | Inr data \<Rightarrow> SetValue field (DSlice (map DFloat64 data)))
         else if ftype field = TSlice TDuration then
           (case parseDurations L splitData of
              Inl err \<Rightarrow> (Some ErrConversion, field)
            | Inr durationData \<Rightarrow> SetValue field (DSlice (map DDuration durationData)))
         else (Some ErrUnsupportedType, field))"

subsection \<open>parseValue (lines 141--244)\<close>

text \<open>
  \<^verbatim>\<open>parseValue(typeField, valueField, value)\<close>: the switch on the kind of the field's
  type. The model takes the field and returns the error and the field as the call
  leaves it. The setters of \<^verbatim>\<open>valueField\<close> are \<open>SetValue\<close>. Line 237 replaces every error
  that \<^verbatim>\<open>handleSlice\<close> returns by \<^verbatim>\<open>ErrConversion\<close>; a panic in \<^verbatim>\<open>handleSlice\<close> does not
  return.
\<close>

definition parseValue ::
  "'f floating \<Rightarrow> 'f field \<Rightarrow> string \<Rightarrow> error option \<times> 'f field" where
  "parseValue L field value =
     (case Kind (ftype field) of
        KString \<Rightarrow> SetValue field (DString value)
      | KBool \<Rightarrow>
          (case ParseBool value of
             None \<Rightarrow> (Some ErrConversion, field)
           | Some b \<Rightarrow> SetValue field (DBool b))
      | KInt8 \<Rightarrow>
          (case ParseInt value 8 of
             Inl err \<Rightarrow> (Some ErrConversion, field)
           | Inr i \<Rightarrow> SetValue field (DInt i))
      | KInt16 \<Rightarrow>
          (case ParseInt value 16 of
             Inl err \<Rightarrow> (Some ErrConversion, field)
           | Inr i \<Rightarrow> SetValue field (DInt i))
      | KInt \<Rightarrow>
          (case ParseInt value 32 of
             Inl err \<Rightarrow> (Some ErrConversion, field)
           | Inr i \<Rightarrow> SetValue field (DInt i))
      | KInt32 \<Rightarrow>
          (case ParseInt value 32 of
             Inl err \<Rightarrow> (Some ErrConversion, field)
           | Inr i \<Rightarrow> SetValue field (DInt i))
      | KInt64 \<Rightarrow>
          (if TypeString (ftype field) = ''time.Duration'' then
             (case ParseDuration (DurationFrac L) value of
                None \<Rightarrow> (Some ErrConversion, field)
              | Some d \<Rightarrow> SetValue field (DDuration d))
           else
             (case ParseInt value 64 of
                Inl err \<Rightarrow> (Some ErrConversion, field)
              | Inr i \<Rightarrow> SetValue field (DInt i)))
      | KUint8 \<Rightarrow>
          (case ParseUint value 8 of
             Inl err \<Rightarrow> (Some ErrConversion, field)
           | Inr i \<Rightarrow> SetValue field (DUint i))
      | KUint16 \<Rightarrow>
          (case ParseUint value 16 of
             Inl err \<Rightarrow> (Some ErrConversion, field)
           | Inr i \<Rightarrow> SetValue field (DUint i))
      | KUint \<Rightarrow>
          (case ParseUint value 32 of
             Inl err \<Rightarrow> (Some ErrConversion, field)
           | Inr i \<Rightarrow> SetValue field (DUint i))
      | KUint32 \<Rightarrow>
          (case ParseUint value 32 of
             Inl err \<Rightarrow> (Some ErrConversion, field)
           | Inr i \<Rightarrow> SetValue field (DUint i))
      | KUint64 \<Rightarrow>
          (case ParseUint value 64 of
             Inl err \<Rightarrow> (Some ErrConversion, field)
           | Inr i \<Rightarrow> SetValue field (DUint i))
      | KFloat32 \<Rightarrow>
          (case ParseFloat L value 32 of
             None \<Rightarrow> (Some ErrConversion, field)
           | Some x \<Rightarrow> SetValue field (DFloat32 x))
      | KFloat64 \<Rightarrow>
          (case ParseFloat L value 64 of
             None \<Rightarrow> (Some ErrConversion, field)
           | Some x \<Rightarrow> SetValue field (DFloat64 x))
      | KComplex64 \<Rightarrow>
          (case ParseComplex L value 64 of
             None \<Rightarrow> (Some ErrConversion, field)
           | Some c \<Rightarrow> SetValue field (DComplex64 c))
      | KComplex128 \<Rightarrow>
          (case ParseComplex L value 128 of
             None \<Rightarrow> (Some ErrConversion, field)
           | Some c \<Rightarrow> SetValue field (DComplex128 c))
      | KSlice \<Rightarrow>
          (case handleSlice L field value '','' of
             (Some Panic, field') \<Rightarrow> (Some Panic, field')
           | (Some err, field') \<Rightarrow> (Some ErrConversion, field')
           | (None, field') \<Rightarrow> (None, field'))
      | _ \<Rightarrow> (Some ErrUnsupportedType, field))"

subsection \<open>Unmarshal (lines 41--84)\<close>

text \<open>
  The loop over the fields, in declaration order. It returns the error and the fields
  as the call leaves them: on an error the fields before the failing one keep what was
  stored in them and the others are as they were.
\<close>

fun Unmarshal_loop ::
  "'f floating \<Rightarrow> ObjectMeta \<Rightarrow> string \<Rightarrow> 'f field list \<Rightarrow> error option \<times> 'f field list" where
  "Unmarshal_loop L metadata prefix [] = (None, [])"
| "Unmarshal_loop L metadata prefix (field # rest) =
     (case lookupTag (ftag field) of
        None \<Rightarrow>
          (case Unmarshal_loop L metadata prefix rest of (err, rest') \<Rightarrow> (err, field # rest'))
      | Some (which, tag) \<Rightarrow>
          (case mapIndex (dictOf metadata which) (prefix @ ''/'' @ tag) of
             None \<Rightarrow> (Some ErrValueMissing, field # rest)
           | Some value \<Rightarrow>
               (case parseValue L field value of
                  (Some err, field') \<Rightarrow> (Some err, field' # rest)
                | (None, field') \<Rightarrow>
                    (case Unmarshal_loop L metadata prefix rest of
                       (err, rest') \<Rightarrow> (err, field' # rest')))))"

definition Unmarshal ::
  "'f floating \<Rightarrow> ObjectMeta \<Rightarrow> 'f iface \<Rightarrow> string \<Rightarrow> error option \<times> 'f iface" where
  "Unmarshal L metadata data prefix =
     (case data of
        PointerToStruct fs \<Rightarrow>
          (case Unmarshal_loop L metadata prefix fs of
             (err, fs') \<Rightarrow> (err, PointerToStruct fs'))
      | _ \<Rightarrow> (Some ErrNotStructPointer, data))"

subsection \<open>Marshal (lines 86--139)\<close>

text \<open>
  The inner loop of lines 127--130: \<^verbatim>\<open>values = append(values, fmt.Sprint(...))\<close>. The
  elements \<^verbatim>\<open>refField.Index(i)\<close> can be extracted if the field is exported.
\<close>

fun Marshal_values ::
  "'f floating \<Rightarrow> bool \<Rightarrow> 'f datum list \<Rightarrow> string list \<Rightarrow> string list" where
  "Marshal_values L exported [] values = values"
| "Marshal_values L exported (x # xs) values =
     Marshal_values L exported xs (values @ [Sprint L exported x])"

text \<open>
  The loop over the fields (lines 107--136); its state is the metadata, whose maps the
  loop writes. \<^verbatim>\<open>refField.Kind()\<close> is the kind of the field's type. The loop returns
  the error and the metadata as it leaves it.
\<close>

fun Marshal_loop ::
  "'f floating \<Rightarrow> string \<Rightarrow> 'f field list \<Rightarrow> ObjectMeta \<Rightarrow> error option \<times> ObjectMeta" where
  "Marshal_loop L prefix [] metadata = (None, metadata)"
| "Marshal_loop L prefix (field # rest) metadata =
     (case lookupTag (ftag field) of
        None \<Rightarrow> Marshal_loop L prefix rest metadata
      | Some (which, tag) \<Rightarrow>
          (let key = prefix @ ''/'' @ tag;
               str =
                 (if Kind (ftype field) = KSlice
                  then Join (Marshal_values L (fexported field) (elems (fvalue field)) []) '',''
                  else Sprint L (fexported field) (fvalue field))
           in case mapAssign metadata which key str of
                None \<Rightarrow> (Some Panic, metadata)
              | Some metadata' \<Rightarrow> Marshal_loop L prefix rest metadata'))"

text \<open>
  \<^verbatim>\<open>Marshal\<close> returns the error and the metadata as the call leaves it (\<^verbatim>\<open>metadata\<close> is a
  pointer to an \<^verbatim>\<open>ObjectMeta\<close>, taken not to be \<^verbatim>\<open>nil\<close>). A \<^verbatim>\<open>nil\<close> map is replaced by an
  empty one before the loop.
\<close>

definition Marshal ::
  "'f floating \<Rightarrow> ObjectMeta \<Rightarrow> 'f iface \<Rightarrow> string \<Rightarrow> error option \<times> ObjectMeta" where
  "Marshal L metadata data prefix =
     (case data of
        PointerToStruct fs \<Rightarrow> Marshal_loop L prefix fs (makeMaps metadata)
      | _ \<Rightarrow> (Some ErrNotStructPointer, metadata))"

section \<open>Vocabulary of the statements\<close>

text \<open>
  A floating-point library for concrete inputs without floating-point fields: it
  converts no text to a float, and it computes the fraction of a duration as the
  integer \<open>f * (unit div scale)\<close>.
\<close>

definition noFloats :: "unit floating" where
  "noFloats = \<lparr>ParseFloat = (\<lambda>s bitSize. None), ParseComplex = (\<lambda>s bitSize. None),
     FormatFloat = (\<lambda>x bitSize. []), FormatComplex = (\<lambda>z bitSize. []),
     DurationFrac = (\<lambda>f scale unit. f * (unit div scale))\<rparr>"

text \<open>The element types whose slices \<^verbatim>\<open>handleSlice\<close> decodes (lines 19--27).\<close>

definition supportedElem :: "gotype \<Rightarrow> bool" where
  "supportedElem e \<longleftrightarrow>
     e \<in> set [TString, TBool, TInt, TUint, TInt64, TUint64, TFloat32, TFloat64, TDuration]"

text \<open>A result of \<^verbatim>\<open>strconv\<close> is a value, not an error.\<close>

definition isOk :: "'e + 'a \<Rightarrow> bool" where
  "isOk r = (case r of Inl e \<Rightarrow> False | Inr x \<Rightarrow> True)"

text \<open>
  The conversion that the element parser of the type applies to one token succeeds
  (every token is a string).
\<close>

fun elemConverts :: "'f floating \<Rightarrow> gotype \<Rightarrow> string \<Rightarrow> bool" where
  "elemConverts L TBool t = (ParseBool t \<noteq> None)"
| "elemConverts L TInt t = isOk (ParseInt t 32)"
| "elemConverts L TUint t = isOk (ParseUint t 32)"
| "elemConverts L TInt64 t = isOk (ParseInt t 64)"
| "elemConverts L TUint64 t = isOk (ParseUint t 64)"
| "elemConverts L TFloat32 t = (ParseFloat L t 32 \<noteq> None)"
| "elemConverts L TFloat64 t = (ParseFloat L t 64 \<noteq> None)"
| "elemConverts L TDuration t = (ParseDuration (DurationFrac L) t \<noteq> None)"
| "elemConverts L e t = True"

text \<open>
  The dictionary and the key \<^verbatim>\<open>prefix + "/" + tag\<close> of a field, when it has a recognised
  tag; the keys that the fields of a record write, in order; the string that \<^verbatim>\<open>Marshal\<close>
  stores for a field (lines 125--135, the inner loop written as a \<open>map\<close>).
\<close>

definition fieldKey :: "string \<Rightarrow> 'f field \<Rightarrow> (dictionary \<times> string) option" where
  "fieldKey prefix field =
     (case lookupTag (ftag field) of
        None \<Rightarrow> None
      | Some (which, tag) \<Rightarrow> Some (which, prefix @ ''/'' @ tag))"

definition writtenKeys :: "string \<Rightarrow> 'f field list \<Rightarrow> (dictionary \<times> string) list" where
  "writtenKeys prefix fs = List.map_filter (fieldKey prefix) fs"

definition fieldText :: "'f floating \<Rightarrow> 'f field \<Rightarrow> string" where
  "fieldText L field =
     (if Kind (ftype field) = KSlice
      then Join (map (Sprint L (fexported field)) (elems (fvalue field))) '',''
      else Sprint L (fexported field) (fvalue field))"

text \<open>
  Whether \<^verbatim>\<open>Labels\<close> and \<^verbatim>\<open>Annotations\<close> refer to one map object. \<open>mapObject\<close> names the
  map object behind a dictionary: with one object behind both, both names stand for
  the same object. \<open>writtenCells\<close> are the entries that the fields of a record write,
  in order, each as the map object and the key.
\<close>

definition sameMap :: "ObjectMeta \<Rightarrow> bool" where
  "sameMap metadata = (case metadata of OneMap m \<Rightarrow> True | TwoMaps labels annotations \<Rightarrow> False)"

definition mapObject :: "ObjectMeta \<Rightarrow> dictionary \<Rightarrow> dictionary" where
  "mapObject metadata which = (if sameMap metadata then TheAnnotations else which)"

definition writtenCells :: "ObjectMeta \<Rightarrow> string \<Rightarrow> 'f field list \<Rightarrow> (dictionary \<times> string) list" where
  "writtenCells metadata prefix fs =
     map (\<lambda>(which, key). (mapObject metadata which, key)) (writtenKeys prefix fs)"

text \<open>
  The assignments that \<^verbatim>\<open>Marshal\<close> makes for the fields of a record, in order: for each
  tagged field the entry (the map object and the key) and the string.
\<close>

definition writes ::
  "'f floating \<Rightarrow> ObjectMeta \<Rightarrow> string \<Rightarrow> 'f field list \<Rightarrow> ((dictionary \<times> string) \<times> string) list" where
  "writes L metadata prefix fs =
     List.map_filter
       (\<lambda>field. case fieldKey prefix field of
                  None \<Rightarrow> None
                | Some (which, key) \<Rightarrow> Some ((mapObject metadata which, key), fieldText L field))
       fs"



text \<open>
  Written from the words of claim C6, not from the code: a numeric text is an optional
  sign followed by one or more decimal digits, and \<open>decimalInt\<close> is the integer it
  writes; any other text is not numeric.
\<close>

definition digitsValue :: "string \<Rightarrow> nat" where
  "digitsValue ds = foldl (\<lambda>n c. n * 10 + digitVal c) 0 ds"

definition decimalInt :: "string \<Rightarrow> int option" where
  "decimalInt s =
     (let signed = (s \<noteq> [] \<and> (hd s = CHR ''+'' \<or> hd s = CHR ''-''));
          ds = (if signed then tl s else s)
      in if ds \<noteq> [] \<and> list_all isDigit ds
         then Some (if s \<noteq> [] \<and> hd s = CHR ''-'' then - int (digitsValue ds) else int (digitsValue ds))
         else None)"

text \<open>
  The fraction of a duration is computed exactly where \<^verbatim>\<open>Duration.String()\<close> needs it: for
  a fraction \<open>f\<close> of \<open>k\<close> digits and a unit \<open>10 ^ p\<close> with \<open>k \<le> p \<le> 9\<close>, the library's
  \<^verbatim>\<open>uint64(float64(f) * (float64(unit) / scale))\<close> is \<open>f * 10 ^ (p - k)\<close>. (In \<^verbatim>\<open>float64\<close> the
  quotient is the integer \<open>10 ^ (p - k)\<close> and the product is below \<open>2 ^ 53\<close>; the model
  takes the floating-point computation as a parameter, so this is a hypothesis.)
\<close>

definition fracExact :: "(nat \<Rightarrow> nat \<Rightarrow> nat \<Rightarrow> nat) \<Rightarrow> bool" where
  "fracExact frac \<longleftrightarrow>
     (\<forall>f k p. k \<le> p \<and> p \<le> 9 \<and> f < 10 ^ k \<longrightarrow> frac f (10 ^ k) (10 ^ p) = f * 10 ^ (p - k))"

text \<open>
  What \<^verbatim>\<open>Duration.String()\<close> writes for the magnitude \<open>u\<close>: the body of \<open>DurationString\<close>
  without the sign.
\<close>

definition durationBody :: "nat \<Rightarrow> string" where
  "durationBody u =
     (if u < Second then
        (if u = 0 then ''0s''
         else
           let (prec, buf) =
                 (if u < Microsecond then (0, ''ns'')
                  else if u < Millisecond then (3, [CHR 0xC2, CHR 0xB5, CHR ''s''])
                  else (6, ''ms''));
               (buf1, u1) = fmtFrac buf u prec
           in fmtInt buf1 u1)
      else
        let (buf1, u1) = fmtFrac ''s'' u 9;
            buf2 = fmtInt buf1 (u1 mod 60);
            u2 = u1 div 60
        in if u2 > 0 then
             let buf4 = fmtInt (CHR ''m'' # buf2) (u2 mod 60);
                 u3 = u2 div 60
             in if u3 > 0 then fmtInt (CHR ''h'' # buf4) u3 else buf4
           else buf2)"

text \<open>
  The values for which the round trip is proved. \<open>intBits\<close> and \<open>uintBits\<close> are the widths
  with which \<^verbatim>\<open>parseValue\<close> parses a type (32 for \<^verbatim>\<open>int\<close> and \<^verbatim>\<open>uint\<close>). A scalar of a
  type is fine when it is

  \<^item> a string or a boolean;
  \<^item> an integer that fits the width its type is parsed with (every value of the sized
    types; of \<^verbatim>\<open>int\<close> and \<^verbatim>\<open>uint\<close>, which are 64 bits wide, those that fit 32 bits);
  \<^item> a duration (an \<^verbatim>\<open>int64\<close>) that is a whole number of seconds, or any duration when
    the library computes the fraction exactly (\<open>fracExact\<close>);
  \<^item> a floating-point or complex number that the library parses back from the text it
    prints for it. The floating-point library is a parameter, so this is a condition
    on the library; of Go's it holds for every number but a NaN.

  A slice is fine when its element type is one of the nine of \<^verbatim>\<open>handleSlice\<close>, it is not
  empty, its elements are fine and the text of no element contains a comma: no string
  element does, and the library prints no floating-point element with one (Go's never
  does).
\<close>

fun intBits :: "gotype \<Rightarrow> nat option" where
  "intBits TInt8 = Some 8"
| "intBits TInt16 = Some 16"
| "intBits TInt32 = Some 32"
| "intBits TInt = Some 32"
| "intBits TInt64 = Some 64"
| "intBits t = None"

fun uintBits :: "gotype \<Rightarrow> nat option" where
  "uintBits TUint8 = Some 8"
| "uintBits TUint16 = Some 16"
| "uintBits TUint32 = Some 32"
| "uintBits TUint = Some 32"
| "uintBits TUint64 = Some 64"
| "uintBits t = None"

definition scalarOK :: "'f floating \<Rightarrow> gotype \<Rightarrow> 'f datum \<Rightarrow> bool" where
  "scalarOK L t d =
     (case d of
        DString s \<Rightarrow> t = TString
      | DBool b \<Rightarrow> t = TBool
      | DInt i \<Rightarrow>
          (case intBits t of
             Some bits \<Rightarrow> - (2 ^ (bits - 1)) \<le> i \<and> i < 2 ^ (bits - 1)
           | None \<Rightarrow> False)
      | DUint n \<Rightarrow> (case uintBits t of Some bits \<Rightarrow> n < 2 ^ bits | None \<Rightarrow> False)
      | DDuration x \<Rightarrow>
          t = TDuration \<and> - (2 ^ 63) \<le> x \<and> x < 2 ^ 63
          \<and> (fracExact (DurationFrac L) \<or> x mod 10 ^ 9 = 0)
      | DFloat32 x \<Rightarrow> t = TFloat32 \<and> ParseFloat L (FormatFloat L x 32) 32 = Some x
      | DFloat64 x \<Rightarrow> t = TFloat64 \<and> ParseFloat L (FormatFloat L x 64) 64 = Some x
      | DComplex64 z \<Rightarrow> t = TComplex64 \<and> ParseComplex L (FormatComplex L z 64) 64 = Some z
      | DComplex128 z \<Rightarrow> t = TComplex128 \<and> ParseComplex L (FormatComplex L z 128) 128 = Some z
      | _ \<Rightarrow> False)"

definition noComma :: "'f floating \<Rightarrow> 'f datum \<Rightarrow> bool" where
  "noComma L d =
     (case d of
        DString s \<Rightarrow> CHR '','' \<notin> set s
      | DFloat32 x \<Rightarrow> CHR '','' \<notin> set (FormatFloat L x 32)
      | DFloat64 x \<Rightarrow> CHR '','' \<notin> set (FormatFloat L x 64)
      | _ \<Rightarrow> True)"

definition roundTrips :: "'f floating \<Rightarrow> gotype \<Rightarrow> 'f datum \<Rightarrow> bool" where
  "roundTrips L t d =
     (case t of
        TSlice e \<Rightarrow>
          (case d of
             DSlice xs \<Rightarrow>
               supportedElem e \<and> xs \<noteq> []
               \<and> list_all (scalarOK L e) xs \<and> list_all (noComma L) xs
           | _ \<Rightarrow> False)
      | _ \<Rightarrow> scalarOK L t d)"

text \<open>
  The record of the package's test, \<^verbatim>\<open>Data{ID: 1, Name: "John", Age: 30, Skills: ...}\<close>, and
  its zero value.
\<close>

definition exampleFields :: "unit field list" where
  "exampleFields =
     [\<lparr>ftype = TInt, ftag = [(''annotation'', ''id'')], fexported = True, fvalue = DInt 1\<rparr>,
      \<lparr>ftype = TString, ftag = [(''annotation'', ''name'')], fexported = True, fvalue = DString ''John''\<rparr>,
      \<lparr>ftype = TUint, ftag = [(''label'', ''age'')], fexported = True, fvalue = DUint 30\<rparr>,
      \<lparr>ftype = TSlice TString, ftag = [(''label'', ''skills'')], fexported = True,
        fvalue = DSlice [DString ''cooking'', DString ''swimming'', DString ''driving'']\<rparr>]"

definition zeroFields :: "unit field list" where
  "zeroFields =
     [\<lparr>ftype = TInt, ftag = [(''annotation'', ''id'')], fexported = True, fvalue = DInt 0\<rparr>,
      \<lparr>ftype = TString, ftag = [(''annotation'', ''name'')], fexported = True, fvalue = DString ''''\<rparr>,
      \<lparr>ftype = TUint, ftag = [(''label'', ''age'')], fexported = True, fvalue = DUint 0\<rparr>,
      \<lparr>ftype = TSlice TString, ftag = [(''label'', ''skills'')], fexported = True, fvalue = DSlice []\<rparr>]"

text \<open>A record with a duration and a slice of durations, and its zero value.\<close>

definition timingFields :: "unit field list" where
  "timingFields =
     [\<lparr>ftype = TDuration, ftag = [(''annotation'', ''timeout'')], fexported = True, fvalue = DDuration 1500000000\<rparr>,
      \<lparr>ftype = TSlice TDuration, ftag = [(''label'', ''delays'')], fexported = True,
        fvalue = DSlice [DDuration 5400000000000, DDuration (- 250000)]\<rparr>]"

definition zeroTimingFields :: "unit field list" where
  "zeroTimingFields =
     [\<lparr>ftype = TDuration, ftag = [(''annotation'', ''timeout'')], fexported = True, fvalue = DDuration 0\<rparr>,
      \<lparr>ftype = TSlice TDuration, ftag = [(''label'', ''delays'')], fexported = True, fvalue = DSlice []\<rparr>]"

text \<open>
  A floating-point library for concrete inputs whose floating-point numbers are whole
  numbers of small magnitude, given as integers: Go prints such a number as the
  integer (\<^verbatim>\<open>2\<close>, \<^verbatim>\<open>-20\<close>) and parses it back from that. With it, a record with a
  \<^verbatim>\<open>float64\<close> and a \<^verbatim>\<open>[]float32\<close>, and its zero value.
\<close>

definition wholeFloats :: "int floating" where
  "wholeFloats =
     \<lparr>ParseFloat = (\<lambda>s bitSize. case ParseInt s 64 of Inl err \<Rightarrow> None | Inr i \<Rightarrow> Some i),
      ParseComplex = (\<lambda>s bitSize. None),
      FormatFloat = (\<lambda>x bitSize. FormatInt x), FormatComplex = (\<lambda>z bitSize. []),
      DurationFrac = (\<lambda>f scale unit. f * (unit div scale))\<rparr>"

definition floatFields :: "int field list" where
  "floatFields =
     [\<lparr>ftype = TFloat64, ftag = [(''annotation'', ''ratio'')], fexported = True, fvalue = DFloat64 2\<rparr>,
      \<lparr>ftype = TSlice TFloat32, ftag = [(''label'', ''weights'')], fexported = True,
        fvalue = DSlice [DFloat32 1, DFloat32 (- 20)]\<rparr>]"

definition zeroFloatFields :: "int field list" where
  "zeroFloatFields =
     [\<lparr>ftype = TFloat64, ftag = [(''annotation'', ''ratio'')], fexported = True, fvalue = DFloat64 0\<rparr>,
      \<lparr>ftype = TSlice TFloat32, ftag = [(''label'', ''weights'')], fexported = True,
        fvalue = DSlice []\<rparr>]"

section \<open>Evaluation of the model on concrete inputs\<close>

lemma digitChar_simps:
  "digitChar 0 = CHR ''0''" "digitChar 1 = CHR ''1''" "digitChar 2 = CHR ''2''"
  "digitChar 3 = CHR ''3''" "digitChar 4 = CHR ''4''" "digitChar 5 = CHR ''5''"
  "digitChar 6 = CHR ''6''" "digitChar 7 = CHR ''7''" "digitChar 8 = CHR ''8''"
  "digitChar 9 = CHR ''9''" "digitChar (Suc 0) = CHR ''1''"
  by (simp_all add: digitChar_def char_of_eq_iff take_bit_eq_mod)

lemma fmtFrac_loop_numeral:
  "fmtFrac_loop (numeral k) buf v print =
     (let digit = v mod 10;
          print' = (print \<or> digit \<noteq> 0);
          buf' = (if print' then digitChar digit # buf else buf)
      in fmtFrac_loop (pred_numeral k) buf' (v div 10) print')"
proof -
  have "numeral k = Suc (pred_numeral k)" by (rule numeral_eq_Suc)
  then show ?thesis by (simp only: fmtFrac_loop.simps)
qed

lemmas eval_format =
  Marshal_def FormatInt_def FormatUint_def fmtInt_def fmtInt_loop.simps digitChar_simps
  DurationString_def
  fmtFrac_def fmtFrac_loop_numeral Second_def Microsecond_def Millisecond_def

lemmas eval_duration =
  ParseDuration_def ParseDuration_loop.simps parseDurationTerm_def unitMap_def unitChar_def
  isDigit_def digitVal_def
  Hour_def Minute_def Second_def Microsecond_def Millisecond_def

lemmas eval_parse =
  Unmarshal_def Lookup_def lookupTag_def dictOf_def mapIndex_def parseValue_def handleSlice_def
  SetValue_def Split_def ParseInt_def ParseUint_def ParseBool_def isDigit_def digitVal_def


section \<open>Decimal integers\<close>

lemma ParseUint_loop_step:
  assumes "n \<le> M" and "M < 2 ^ 64"
  shows "ParseUint_loop M (c # cs) n =
           (if \<not> isDigit c then Inl ErrSyntax
            else if n * 10 + digitVal c > M then Inl ErrRange
            else ParseUint_loop M cs (n * 10 + digitVal c))"
proof (cases "isDigit c")
  case False
  then show ?thesis by simp
next
  case True
  then have d: "digitVal c \<le> 9" by (auto simp: isDigit_def digitVal_def)
  show ?thesis
  proof (cases "n \<ge> (2 ^ 64 - 1) div 10 + 1")
    case big: True
    then have "n * 10 + digitVal c \<ge> 2 ^ 64" by simp
    with assms(2) big True show ?thesis by simp
  next
    case small: False
    show ?thesis
    proof (cases "n * 10 + digitVal c < 2 ^ 64")
      case True
      then have "(n * 10 + digitVal c) mod 2 ^ 64 = n * 10 + digitVal c" by simp
      with small \<open>isDigit c\<close> show ?thesis by (simp add: Let_def)
    next
      case False
      with small d have "(n * 10 + digitVal c) mod 2 ^ 64 = n * 10 + digitVal c - 2 ^ 64"
        by (simp add: mod_if)
      moreover from False d have "n * 10 + digitVal c - 2 ^ 64 < n * 10" by simp
      moreover from False assms(2) have "n * 10 + digitVal c > M" by simp
      ultimately show ?thesis using small \<open>isDigit c\<close> by (simp add: Let_def)
    qed
  qed
qed

lemma foldl_digits_ge: "n \<le> foldl (\<lambda>n c. n * 10 + digitVal c) n s"
proof (induction s arbitrary: n)
  case Nil
  show ?case by simp
next
  case (Cons c s)
  have "n \<le> n * 10 + digitVal c" by simp
  also have "\<dots> \<le> foldl (\<lambda>n c. n * 10 + digitVal c) (n * 10 + digitVal c) s" by (rule Cons.IH)
  finally show ?case by simp
qed

lemma ParseUint_loop_digits:
  assumes "list_all isDigit s" and "n \<le> M" and "M < 2 ^ 64"
  shows "ParseUint_loop M s n =
           (if foldl (\<lambda>n c. n * 10 + digitVal c) n s \<le> M
            then Inr (foldl (\<lambda>n c. n * 10 + digitVal c) n s) else Inl ErrRange)"
  using assms
proof (induction s arbitrary: n)
  case Nil
  then show ?case by simp
next
  case (Cons c s)
  show ?case
  proof (cases "n * 10 + digitVal c > M")
    case True
    with foldl_digits_ge [of "n * 10 + digitVal c" s]
    have "foldl (\<lambda>n c. n * 10 + digitVal c) (n * 10 + digitVal c) s > M" by simp
    with True Cons.prems show ?thesis
      by (simp add: ParseUint_loop_step del: ParseUint_loop.simps)
  next
    case False
    with Cons.prems Cons.IH [of "n * 10 + digitVal c"] show ?thesis
      by (simp add: ParseUint_loop_step del: ParseUint_loop.simps)
  qed
qed

lemma ParseUint_loop_nondigits:
  assumes "\<not> list_all isDigit s" and "n \<le> M" and "M < 2 ^ 64"
  shows "\<exists>e. ParseUint_loop M s n = Inl e"
  using assms
proof (induction s arbitrary: n)
  case Nil
  then show ?case by simp
next
  case (Cons c s)
  then show ?case
    by (cases "isDigit c"; cases "n * 10 + digitVal c > M")
       (simp_all add: ParseUint_loop_step del: ParseUint_loop.simps)
qed

lemma maxVal_less: "bitSize \<le> 64 \<Longrightarrow> (2::nat) ^ bitSize - 1 < 2 ^ 64"
proof -
  assume "bitSize \<le> 64"
  then have "(2::nat) ^ bitSize \<le> 2 ^ 64" by (rule power_increasing) simp
  then show ?thesis by (simp add: less_eq_iff_succ_less)
qed

lemma ParseUint_digits:
  assumes "bitSize \<le> 64" and "s \<noteq> []" and "list_all isDigit s"
  shows "ParseUint s bitSize =
           (if digitsValue s < 2 ^ bitSize then Inr (digitsValue s) else Inl ErrRange)"
proof -
  have "ParseUint s bitSize =
          (if digitsValue s \<le> 2 ^ bitSize - 1 then Inr (digitsValue s) else Inl ErrRange)"
    using assms(2) ParseUint_loop_digits [OF assms(3) _ maxVal_less [OF assms(1)], of 0]
    by (simp add: ParseUint_def digitsValue_def)
  moreover have "digitsValue s \<le> 2 ^ bitSize - 1 \<longleftrightarrow> digitsValue s < 2 ^ bitSize"
    by (simp add: Nat.le_diff_conv2 Suc_le_eq)
  ultimately show ?thesis by simp
qed

lemma ParseUint_nondigits:
  assumes "bitSize \<le> 64" and "s = [] \<or> \<not> list_all isDigit s"
  shows "\<exists>e. ParseUint s bitSize = Inl e"
proof (cases "s = []")
  case True
  then show ?thesis by (simp add: ParseUint_def)
next
  case False
  with assms(2) have "\<not> list_all isDigit s" by simp
  from ParseUint_loop_nondigits [OF this _ maxVal_less [OF assms(1)], of 0] False
  show ?thesis by (simp add: ParseUint_def)
qed

lemma ParseUint_Inr_iff:
  assumes "bitSize \<le> 64"
  shows "ParseUint s bitSize = Inr n \<longleftrightarrow>
           s \<noteq> [] \<and> list_all isDigit s \<and> n = digitsValue s \<and> n < 2 ^ bitSize"
proof (cases "s \<noteq> [] \<and> list_all isDigit s")
  case True
  then show ?thesis using ParseUint_digits [OF assms, of s] by auto
next
  case False
  then have "s = [] \<or> \<not> list_all isDigit s" by simp
  from ParseUint_nondigits [OF assms this] False show ?thesis by auto
qed

lemma cutoff_less:
  assumes "2 \<le> bitSize"
  shows "(2::nat) ^ (bitSize - 1) < 2 ^ bitSize - 1"
proof -
  from assms obtain k where k: "bitSize = Suc (Suc k)"
    by (metis Suc_le_D numeral_2_eq_2 Suc_le_mono)
  define x :: nat where "x = 2 ^ k"
  have "1 \<le> x" by (simp add: x_def)
  then have "2 * x < 4 * x - 1" by arith
  then show ?thesis unfolding k x_def by simp
qed

lemma ParseInt_alt:
  assumes "2 \<le> bitSize" and "s \<noteq> []"
  shows "ParseInt s bitSize =
           (case ParseUint (if hd s = CHR ''+'' \<or> hd s = CHR ''-'' then tl s else s) bitSize of
              Inl e \<Rightarrow> Inl e
            | Inr un \<Rightarrow>
                if hd s \<noteq> CHR ''-'' \<and> un \<ge> 2 ^ (bitSize - 1) then Inl ErrRange
                else if hd s = CHR ''-'' \<and> un > 2 ^ (bitSize - 1) then Inl ErrRange
                else Inr (if hd s = CHR ''-'' then - int un else int un))"
  using assms(2) cutoff_less [OF assms(1)]
  by (auto simp: ParseInt_def Let_def split: sum.splits numerr.splits)

lemma ParseInt_Inr_iff:
  assumes "2 \<le> bitSize" and "bitSize \<le> 64"
  shows "ParseInt s bitSize = Inr i \<longleftrightarrow>
           decimalInt s = Some i \<and> - (2 ^ (bitSize - 1)) \<le> i \<and> i < 2 ^ (bitSize - 1)"
proof (cases "s = []")
  case True
  then show ?thesis by (simp add: ParseInt_def decimalInt_def)
next
  case ne: False
  define ds where "ds = (if hd s = CHR ''+'' \<or> hd s = CHR ''-'' then tl s else s)"
  have dec: "decimalInt s =
      (if ds \<noteq> [] \<and> list_all isDigit ds
       then Some (if hd s = CHR ''-'' then - int (digitsValue ds) else int (digitsValue ds))
       else None)"
    using ne by (simp add: decimalInt_def ds_def Let_def)
  have pi: "ParseInt s bitSize =
           (case ParseUint ds bitSize of
              Inl e \<Rightarrow> Inl e
            | Inr un \<Rightarrow>
                if hd s \<noteq> CHR ''-'' \<and> un \<ge> 2 ^ (bitSize - 1) then Inl ErrRange
                else if hd s = CHR ''-'' \<and> un > 2 ^ (bitSize - 1) then Inl ErrRange
                else Inr (if hd s = CHR ''-'' then - int un else int un))"
    unfolding ds_def using assms(1) ne by (rule ParseInt_alt)
  have int_lt: "int v < 2 ^ (bitSize - 1) \<longleftrightarrow> v < 2 ^ (bitSize - 1)" for v :: nat
    by (metis of_nat_less_iff of_nat_numeral of_nat_power)
  have int_le: "- (2 ^ (bitSize - 1)) \<le> - int v \<longleftrightarrow> v \<le> 2 ^ (bitSize - 1)" for v :: nat
    by (metis neg_le_iff_le of_nat_le_iff of_nat_numeral of_nat_power)
  have lt: "(2::nat) ^ (bitSize - 1) < 2 ^ bitSize"
    using cutoff_less [OF assms(1)] by arith
  show ?thesis
  proof (cases "ds \<noteq> [] \<and> list_all isDigit ds")
    case False
    then have "ds = [] \<or> \<not> list_all isDigit ds" by simp
    from ParseUint_nondigits [OF assms(2) this] False show ?thesis
      by (auto simp: pi dec)
  next
    case True
    then have pu: "ParseUint ds bitSize =
        (if digitsValue ds < 2 ^ bitSize then Inr (digitsValue ds) else Inl ErrRange)"
      using ParseUint_digits [OF assms(2)] by simp
    have big: "\<not> digitsValue ds \<le> 2 ^ (bitSize - 1)" if "\<not> digitsValue ds < 2 ^ bitSize"
      using that lt by arith
    show ?thesis
    proof (cases "hd s = CHR ''-''")
      case neg: True
      have rng: "- (2 ^ (bitSize - 1)) \<le> - int (digitsValue ds) \<and> - int (digitsValue ds) < 2 ^ (bitSize - 1)
              \<longleftrightarrow> digitsValue ds \<le> 2 ^ (bitSize - 1)"
        using int_le [of "digitsValue ds"]
        by (smt (verit) of_nat_0_le_iff zero_less_numeral zero_less_power)
      show ?thesis
      proof (cases "digitsValue ds < 2 ^ bitSize")
        case True
        with \<open>ds \<noteq> [] \<and> list_all isDigit ds\<close> neg rng show ?thesis
          by (auto simp: pi dec pu)
      next
        case False
        with \<open>ds \<noteq> [] \<and> list_all isDigit ds\<close> neg rng big [OF False] show ?thesis
          by (auto simp: pi dec pu)
      qed
    next
      case pos: False
      have rng: "- (2 ^ (bitSize - 1)) \<le> int (digitsValue ds) \<and> int (digitsValue ds) < 2 ^ (bitSize - 1)
              \<longleftrightarrow> digitsValue ds < 2 ^ (bitSize - 1)"
        using int_lt [of "digitsValue ds"]
        by (smt (verit) of_nat_0_le_iff zero_less_numeral zero_less_power)
      show ?thesis
      proof (cases "digitsValue ds < 2 ^ bitSize")
        case True
        with \<open>ds \<noteq> [] \<and> list_all isDigit ds\<close> pos rng show ?thesis
          by (auto simp: pi dec pu)
      next
        case False
        with \<open>ds \<noteq> [] \<and> list_all isDigit ds\<close> pos rng big [OF False] show ?thesis
          by (auto simp: pi dec pu)
      qed
    qed
  qed
qed



text \<open>What \<^verbatim>\<open>fmt\<close> prints for an integer, \<^verbatim>\<open>strconv\<close> parses back.\<close>

lemma digitChar_digit:
  assumes "d < 10"
  shows "isDigit (digitChar d)" and "digitVal (digitChar d) = d"
  using assms by (simp_all add: isDigit_def digitVal_def digitChar_def)

lemma fmtInt_loop_zero: "fmtInt_loop buf 0 = buf"
  by (simp add: fmtInt_loop.simps [of buf 0])

lemma fmtInt_loop_append: "fmtInt_loop buf v = fmtInt_loop [] v @ buf"
proof (induction v arbitrary: buf rule: less_induct)
  case (less v)
  show ?case
  proof (cases "v > 0")
    case False
    then show ?thesis by (simp add: fmtInt_loop_zero)
  next
    case True
    then have "v div 10 < v" by simp
    from less.IH [OF this, of "digitChar (v mod 10) # buf"] less.IH [OF this, of "[digitChar (v mod 10)]"]
      True
    show ?thesis by (simp add: fmtInt_loop.simps [of _ v])
  qed
qed

lemma fmtInt_loop_snoc:
  "v > 0 \<Longrightarrow> fmtInt_loop [] v = fmtInt_loop [] (v div 10) @ [digitChar (v mod 10)]"
  using fmtInt_loop_append [of "[digitChar (v mod 10)]" "v div 10"]
  by (simp add: fmtInt_loop.simps [of "[]" v])

lemma fmtInt_loop_digits: "list_all isDigit (fmtInt_loop [] v)"
proof (induction v rule: less_induct)
  case (less v)
  show ?case
  proof (cases "v > 0")
    case False
    then show ?thesis by (simp add: fmtInt_loop_zero)
  next
    case True
    then have "v div 10 < v" by simp
    from less.IH [OF this] True show ?thesis
      by (simp add: fmtInt_loop_snoc digitChar_digit)
  qed
qed

lemma fmtInt_loop_value: "digitsValue (fmtInt_loop [] v) = v"
proof (induction v rule: less_induct)
  case (less v)
  show ?case
  proof (cases "v > 0")
    case False
    then show ?thesis by (simp add: fmtInt_loop_zero digitsValue_def)
  next
    case True
    then have "v div 10 < v" by simp
    from less.IH [OF this] True show ?thesis
      by (simp add: fmtInt_loop_snoc digitChar_digit digitsValue_def)
  qed
qed

lemma fmtInt_loop_nonempty: "v > 0 \<Longrightarrow> fmtInt_loop [] v \<noteq> []"
  by (simp add: fmtInt_loop_snoc)

lemma FormatUint_digits: "list_all isDigit (FormatUint n)"
  by (simp add: FormatUint_def fmtInt_def fmtInt_loop_digits isDigit_def)

lemma FormatUint_nonempty: "FormatUint n \<noteq> []"
  by (simp add: FormatUint_def fmtInt_def fmtInt_loop_nonempty)

lemma FormatUint_value: "digitsValue (FormatUint n) = n"
  by (simp add: FormatUint_def fmtInt_def fmtInt_loop_value) (simp add: digitsValue_def digitVal_def)

lemma ParseUint_FormatUint:
  assumes "bitSize \<le> 64" and "n < 2 ^ bitSize"
  shows "ParseUint (FormatUint n) bitSize = Inr n"
  using ParseUint_digits [OF assms(1) FormatUint_nonempty FormatUint_digits, of n] assms(2)
  by (simp add: FormatUint_value)

lemma isDigit_not_sign: "isDigit c \<Longrightarrow> c \<noteq> CHR ''+'' \<and> c \<noteq> CHR ''-'' \<and> c \<noteq> CHR '',''"
  by (auto simp: isDigit_def)

lemma FormatUint_hd: "isDigit (hd (FormatUint n))"
  using FormatUint_digits [of n] FormatUint_nonempty [of n]
  by (cases "FormatUint n") simp_all

lemma decimalInt_FormatInt: "decimalInt (FormatInt i) = Some i"
proof (cases "i < 0")
  case True
  then show ?thesis
    by (simp add: FormatInt_def decimalInt_def FormatUint_digits FormatUint_nonempty FormatUint_value)
next
  case False
  with isDigit_not_sign [OF FormatUint_hd, of "nat i"] show ?thesis
    by (simp add: FormatInt_def decimalInt_def FormatUint_digits FormatUint_nonempty FormatUint_value)
qed

lemma ParseInt_FormatInt:
  assumes "2 \<le> bitSize" and "bitSize \<le> 64"
    and "- (2 ^ (bitSize - 1)) \<le> i" and "i < 2 ^ (bitSize - 1)"
  shows "ParseInt (FormatInt i) bitSize = Inr i"
  using ParseInt_Inr_iff [OF assms(1,2), of "FormatInt i" i] assms(3,4)
  by (simp add: decimalInt_FormatInt)

lemma comma_notin_FormatUint: "CHR '','' \<notin> set (FormatUint n)"
  using FormatUint_digits [of n] isDigit_not_sign by (auto simp: list_all_iff)

lemma comma_notin_FormatInt: "CHR '','' \<notin> set (FormatInt i)"
  by (simp add: FormatInt_def comma_notin_FormatUint)

section \<open>Sequence decoding\<close>

lemma parseBools_loop_fail:
  "\<exists>t\<in>set data. ParseBool t = None \<Longrightarrow> parseBools_loop data acc = Inl ErrConversion"
  by (induction data arbitrary: acc) (auto split: option.splits)

lemma parseInts_loop_fail:
  "\<exists>t\<in>set data. \<not> isOk (ParseInt t 32) \<Longrightarrow> parseInts_loop data acc = Inl ErrConversion"
  by (induction data arbitrary: acc) (auto simp: isOk_def split: sum.splits)

lemma parseUints_loop_fail:
  "\<exists>t\<in>set data. \<not> isOk (ParseUint t 32) \<Longrightarrow> parseUints_loop data acc = Inl ErrConversion"
  by (induction data arbitrary: acc) (auto simp: isOk_def split: sum.splits)

lemma parseInt64s_loop_fail:
  "\<exists>t\<in>set data. \<not> isOk (ParseInt t 64) \<Longrightarrow> parseInt64s_loop data acc = Inl ErrConversion"
  by (induction data arbitrary: acc) (auto simp: isOk_def split: sum.splits)

lemma parseUint64s_loop_fail:
  "\<exists>t\<in>set data. \<not> isOk (ParseUint t 64) \<Longrightarrow> parseUint64s_loop data acc = Inl ErrConversion"
  by (induction data arbitrary: acc) (auto simp: isOk_def split: sum.splits)

lemma parseFloat32s_loop_fail:
  "\<exists>t\<in>set data. ParseFloat L t 32 = None \<Longrightarrow> parseFloat32s_loop L data acc = Inl ErrConversion"
  by (induction data arbitrary: acc) (auto split: option.splits)

lemma parseFloat64s_loop_fail:
  "\<exists>t\<in>set data. ParseFloat L t 64 = None \<Longrightarrow> parseFloat64s_loop L data acc = Inl ErrConversion"
  by (induction data arbitrary: acc) (auto split: option.splits)

lemma parseDurations_loop_fail:
  "\<exists>t\<in>set data. ParseDuration (DurationFrac L) t = None \<Longrightarrow>
     parseDurations_loop L data acc = Inl ErrConversion"
  by (induction data arbitrary: acc) (auto split: option.splits)

lemma Split_loop_nonempty: "Split_loop sep cur s skip \<noteq> []"
  by (induction sep cur s skip rule: Split_loop.induct) auto

lemma handleSlice_fail:
  assumes "ftype field = TSlice e" and "supportedElem e"
    and "\<exists>t\<in>set (Split raw (if separator = [] then '','' else separator)). \<not> elemConverts L e t"
  shows "handleSlice L field raw separator = (Some ErrConversion, field)"
proof -
  from assms(2) consider "e = TString" | "e = TBool" | "e = TInt" | "e = TUint" | "e = TInt64"
    | "e = TUint64" | "e = TFloat32" | "e = TFloat64" | "e = TDuration"
    by (auto simp: supportedElem_def)
  then show ?thesis
  proof cases
    case 1
    with assms(3) show ?thesis by simp
  next
    case 2
    with assms(1,3) show ?thesis
      by (simp add: handleSlice_def parseBools_def parseBools_loop_fail)
  next
    case 3
    with assms(1,3) show ?thesis
      by (simp add: handleSlice_def parseInts_def parseInts_loop_fail)
  next
    case 4
    with assms(1,3) show ?thesis
      by (simp add: handleSlice_def parseUints_def parseUints_loop_fail)
  next
    case 5
    with assms(1,3) show ?thesis
      by (simp add: handleSlice_def parseInt64s_def parseInt64s_loop_fail)
  next
    case 6
    with assms(1,3) show ?thesis
      by (simp add: handleSlice_def parseUint64s_def parseUint64s_loop_fail)
  next
    case 7
    with assms(1,3) show ?thesis
      by (simp add: handleSlice_def parseFloat32s_def parseFloat32s_loop_fail)
  next
    case 8
    with assms(1,3) show ?thesis
      by (simp add: handleSlice_def parseFloat64s_def parseFloat64s_loop_fail)
  next
    case 9
    with assms(1,3) show ?thesis
      by (simp add: handleSlice_def parseDurations_def parseDurations_loop_fail)
  qed
qed

text \<open>
  Claim C7. For a slice field of a supported element type: when one of the tokens of the
  input, split at the separator (\<^verbatim>\<open>","\<close> when the separator is empty), does not convert,
  \<^verbatim>\<open>handleSlice\<close> returns \<^verbatim>\<open>ErrConversion\<close> and leaves the field as it was: no converted
  prefix is stored. The same holds of \<^verbatim>\<open>parseValue\<close>, which splits at \<^verbatim>\<open>","\<close>.
\<close>

theorem C7_sequence_decode_all_or_nothing:
  assumes "ftype field = TSlice e" and "supportedElem e"
    and "\<exists>t\<in>set (Split raw (if separator = [] then '','' else separator)). \<not> elemConverts L e t"
  shows "handleSlice L field raw separator = (Some ErrConversion, field)
    \<and> (separator = [] \<or> separator = '','' \<longrightarrow> parseValue L field raw = (Some ErrConversion, field))"
proof -
  have hs: "handleSlice L field raw separator = (Some ErrConversion, field)"
    using assms by (rule handleSlice_fail)
  moreover have "parseValue L field raw = (Some ErrConversion, field)"
    if "separator = [] \<or> separator = '',''"
  proof -
    from that assms(3)
    have "\<exists>t\<in>set (Split raw (if '','' = [] then '','' else '','')). \<not> elemConverts L e t"
      by auto
    with assms(1,2) have "handleSlice L field raw '','' = (Some ErrConversion, field)"
      by (rule handleSlice_fail)
    with assms(1) show ?thesis by (simp add: parseValue_def)
  qed
  ultimately show ?thesis by blast
qed

theorem C7_witness:
  "handleSlice noFloats \<lparr>ftype = TSlice TBool, ftag = [(''label'', ''flags'')], fexported = True, fvalue = DSlice [DBool True]\<rparr>
      ''true,false,maybe'' '''' =
    (Some ErrConversion, \<lparr>ftype = TSlice TBool, ftag = [(''label'', ''flags'')], fexported = True, fvalue = DSlice [DBool True]\<rparr>)
   \<and> parseValue noFloats \<lparr>ftype = TSlice TBool, ftag = [(''label'', ''flags'')], fexported = True, fvalue = DSlice [DBool True]\<rparr>
      ''true,false,maybe''  =
    (Some ErrConversion, \<lparr>ftype = TSlice TBool, ftag = [(''label'', ''flags'')], fexported = True, fvalue = DSlice [DBool True]\<rparr>)"
  using C7_sequence_decode_all_or_nothing [where e = TBool and L = noFloats and separator = "''''"
     and raw = "''true,false,maybe''"
     and field = "\<lparr>ftype = TSlice TBool, ftag = [(''label'', ''flags'')], fexported = True, fvalue = DSlice [DBool True]\<rparr>"]
  by (simp add: supportedElem_def Split_def ParseBool_def)



section \<open>The two loops\<close>

text \<open>
  What \<^verbatim>\<open>Marshal\<close> leaves in the maps: it never fails on a pointer to a struct, and an
  entry of a map holds after the call the string of the last field that writes it, or
  what it held before if no field writes it.
\<close>

lemma Marshal_values_eq: "Marshal_values L e xs acc = acc @ map (Sprint L e) xs"
  by (induction xs arbitrary: acc) auto

lemma makeMaps_idem: "makeMaps (makeMaps m) = makeMaps m"
  by (cases m) simp_all

lemma sameMap_makeMaps: "sameMap (makeMaps m) = sameMap m"
  by (cases m) (simp_all add: sameMap_def)

lemma mapIndex_makeMaps: "mapIndex (dictOf (makeMaps m) w) k = mapIndex (dictOf m w) k"
  by (cases m; cases w) (simp_all add: mapIndex_def dictOf_def split: option.splits)

lemma mapObject_cong: "sameMap m' = sameMap m \<Longrightarrow> mapObject m' = mapObject m"
  by (simp add: fun_eq_iff mapObject_def)

lemma writes_cong:
  assumes "sameMap m' = sameMap m"
  shows "writes L m' p fs = writes L m p fs"
  unfolding writes_def mapObject_cong [OF assms] ..

lemma writtenCells_cong: "sameMap m' = sameMap m \<Longrightarrow> writtenCells m' p fs = writtenCells m p fs"
  using mapObject_cong [of m' m] by (simp add: writtenCells_def)

lemma writes_Nil: "writes L m p [] = []"
  by (simp add: writes_def)

lemma writes_Cons:
  "writes L m p (f # fs) =
     (case lookupTag (ftag f) of
        None \<Rightarrow> writes L m p fs
      | Some (which, tag) \<Rightarrow> ((mapObject m which, p @ ''/'' @ tag), fieldText L f) # writes L m p fs)"
  by (simp add: writes_def fieldKey_def split: option.splits)

lemma writes_append: "writes L m p (fs @ gs) = writes L m p fs @ writes L m p gs"
  by (induction fs) (simp_all add: writes_Nil writes_Cons split: option.splits)

lemma writtenKeys_Cons:
  "writtenKeys p (f # fs) =
     (case lookupTag (ftag f) of
        None \<Rightarrow> writtenKeys p fs
      | Some (which, tag) \<Rightarrow> (which, p @ ''/'' @ tag) # writtenKeys p fs)"
  by (simp add: writtenKeys_def fieldKey_def split: option.splits)

lemma writtenKeys_append:
  "writtenKeys p (fs @ gs) = writtenKeys p fs @ writtenKeys p gs"
  by (induction fs) (simp_all add: writtenKeys_def split: option.splits)

lemma writtenCells_Cons:
  "writtenCells m p (f # fs) =
     (case lookupTag (ftag f) of
        None \<Rightarrow> writtenCells m p fs
      | Some (which, tag) \<Rightarrow> (mapObject m which, p @ ''/'' @ tag) # writtenCells m p fs)"
  by (simp add: writtenCells_def writtenKeys_Cons split: option.splits)

lemma writtenCells_append:
  "writtenCells m p (fs @ gs) = writtenCells m p fs @ writtenCells m p gs"
  by (simp add: writtenCells_def writtenKeys_append)

lemma writtenCells_writes: "writtenCells m p fs = map fst (writes L m p fs)"
proof (induction fs)
  case Nil
  show ?case by (simp add: writes_Nil writtenCells_def writtenKeys_def)
next
  case (Cons f fs)
  then show ?case by (simp add: writes_Cons writtenCells_Cons split: option.splits)
qed

lemma mapAssign_ready:
  assumes "makeMaps m = m"
  shows "\<exists>m'. mapAssign m which key v = Some m' \<and> makeMaps m' = m' \<and> sameMap m' = sameMap m
    \<and> (\<forall>w k. mapIndex (dictOf m' w) k =
          (if mapObject m w = mapObject m which \<and> k = key then Some v
           else mapIndex (dictOf m w) k))"
proof (cases m)
  case (OneMap d)
  then show ?thesis
    by (auto simp: sameMap_def mapObject_def mapIndex_def dictOf_def split: dictionary.splits)
next
  case (TwoMaps l a)
  with assms obtain dl da where "l = Some dl" "a = Some da"
    by (cases l; cases a) auto
  with TwoMaps show ?thesis
    by (cases which)
       (auto simp: sameMap_def mapObject_def mapIndex_def dictOf_def split: dictionary.splits)
qed

lemma Marshal_loop_result:
  assumes "makeMaps m = m"
  shows "\<exists>m'. Marshal_loop L p fs m = (None, m') \<and> makeMaps m' = m' \<and> sameMap m' = sameMap m
    \<and> (\<forall>w k. mapIndex (dictOf m' w) k =
          (case map_of (rev (writes L m p fs)) (mapObject m w, k) of
             None \<Rightarrow> mapIndex (dictOf m w) k
           | Some t \<Rightarrow> Some t))"
  using assms
proof (induction fs arbitrary: m)
  case Nil
  then show ?case by (simp add: writes_Nil)
next
  case (Cons f fs)
  show ?case
  proof (cases "lookupTag (ftag f)")
    case None
    with Cons.IH [OF Cons.prems] show ?thesis by (simp add: writes_Cons)
  next
    case (Some wt)
    obtain which tag where wt: "wt = (which, tag)" by (cases wt)
    from mapAssign_ready [OF Cons.prems, of which "p @ ''/'' @ tag" "fieldText L f"]
    obtain m1 where all1: "mapAssign m which (p @ ''/'' @ tag) (fieldText L f) = Some m1
      \<and> makeMaps m1 = m1 \<and> sameMap m1 = sameMap m
      \<and> (\<forall>w k. mapIndex (dictOf m1 w) k =
          (if mapObject m w = mapObject m which \<and> k = p @ ''/'' @ tag then Some (fieldText L f)
           else mapIndex (dictOf m w) k))" ..
    then have m1: "mapAssign m which (p @ ''/'' @ tag) (fieldText L f) = Some m1"
      "makeMaps m1 = m1" "sameMap m1 = sameMap m"
      by simp_all
    from all1 have ix: "mapIndex (dictOf m1 w) k =
          (if mapObject m w = mapObject m which \<and> k = p @ ''/'' @ tag then Some (fieldText L f)
           else mapIndex (dictOf m w) k)" for w k
      by simp
    from Cons.IH [OF m1(2)] obtain m' where all': "Marshal_loop L p fs m1 = (None, m')
      \<and> makeMaps m' = m' \<and> sameMap m' = sameMap m1
      \<and> (\<forall>w k. mapIndex (dictOf m' w) k =
          (case map_of (rev (writes L m1 p fs)) (mapObject m1 w, k) of
             None \<Rightarrow> mapIndex (dictOf m1 w) k
           | Some t \<Rightarrow> Some t))" ..
    then have m': "Marshal_loop L p fs m1 = (None, m')"
      "makeMaps m' = m'" "sameMap m' = sameMap m1"
      by simp_all
    from all' have ix': "mapIndex (dictOf m' w) k =
          (case map_of (rev (writes L m1 p fs)) (mapObject m1 w, k) of
             None \<Rightarrow> mapIndex (dictOf m1 w) k
           | Some t \<Rightarrow> Some t)" for w k
      by simp
    have step: "Marshal_loop L p (f # fs) m = Marshal_loop L p fs m1"
      using Some wt m1(1)
      by (cases "Kind (ftype f) = KSlice") (simp_all add: fieldText_def Marshal_values_eq Let_def)
    have w1: "writes L m1 p fs = writes L m p fs" using m1(3) by (rule writes_cong)
    have o1: "mapObject m1 w = mapObject m w" for w using m1(3) by (simp add: mapObject_def)
    have wr: "writes L m p (f # fs) = ((mapObject m which, p @ ''/'' @ tag), fieldText L f) # writes L m p fs"
      using Some wt by (simp add: writes_Cons)
    have "mapIndex (dictOf m' w) k =
          (case map_of (rev (writes L m p (f # fs))) (mapObject m w, k) of
             None \<Rightarrow> mapIndex (dictOf m w) k
           | Some t \<Rightarrow> Some t)" for w k
      unfolding ix' w1 o1 ix wr
      by (auto simp: map_add_def split: option.splits)
    with step m' m1(3) show ?thesis by simp
  qed
qed

lemma Marshal_result:
  "\<exists>m'. Marshal L metadata (PointerToStruct fs) prefix = (None, m')
    \<and> makeMaps m' = m' \<and> sameMap m' = sameMap metadata
    \<and> (\<forall>w k. mapIndex (dictOf m' w) k =
          (case map_of (rev (writes L metadata prefix fs)) (mapObject metadata w, k) of
             None \<Rightarrow> mapIndex (dictOf metadata w) k
           | Some t \<Rightarrow> Some t))"
proof -
  from Marshal_loop_result [OF makeMaps_idem, of L prefix fs metadata]
  obtain m' where "Marshal_loop L prefix fs (makeMaps metadata) = (None, m')
    \<and> makeMaps m' = m' \<and> sameMap m' = sameMap (makeMaps metadata)
    \<and> (\<forall>w k. mapIndex (dictOf m' w) k =
          (case map_of (rev (writes L (makeMaps metadata) prefix fs)) (mapObject (makeMaps metadata) w, k) of
             None \<Rightarrow> mapIndex (dictOf (makeMaps metadata) w) k
           | Some t \<Rightarrow> Some t))" ..
  moreover have "writes L (makeMaps metadata) prefix fs = writes L metadata prefix fs"
    by (rule writes_cong) (rule sameMap_makeMaps)
  moreover have "mapObject (makeMaps metadata) w = mapObject metadata w" for w
    by (simp add: mapObject_def sameMap_makeMaps)
  ultimately show ?thesis
    by (simp add: Marshal_def mapIndex_makeMaps sameMap_makeMaps cong: option.case_cong)
qed

lemma Marshal_no_error: "fst (Marshal L metadata (PointerToStruct fs) prefix) = None"
  using Marshal_result [of L metadata fs prefix] by auto

lemma Marshal_frame:
  assumes "(mapObject metadata w, k) \<notin> set (writtenCells metadata prefix fs)"
  shows "mapIndex (dictOf (snd (Marshal L metadata (PointerToStruct fs) prefix)) w) k
           = mapIndex (dictOf metadata w) k"
proof -
  from assms have "map_of (rev (writes L metadata prefix fs)) (mapObject metadata w, k) = None"
    by (simp add: map_of_eq_None_iff writtenCells_writes [of _ _ _ L])
  with Marshal_result [of L metadata fs prefix] show ?thesis by auto
qed

lemma Marshal_stores:
  assumes "lookupTag (ftag field) = Some (which, tag)"
    and "(mapObject metadata which, prefix @ ''/'' @ tag) \<notin> set (writtenCells metadata prefix rest)"
    and "mapObject metadata w = mapObject metadata which"
  shows "mapIndex (dictOf (snd (Marshal L metadata (PointerToStruct (before @ field # rest)) prefix)) w)
             (prefix @ ''/'' @ tag)
           = Some (fieldText L field)"
proof -
  from assms(2)
  have "map_of (rev (writes L metadata prefix rest)) (mapObject metadata which, prefix @ ''/'' @ tag) = None"
    by (simp add: map_of_eq_None_iff writtenCells_writes [of _ _ _ L])
  with assms(1,3)
  have "map_of (rev (writes L metadata prefix (before @ field # rest)))
          (mapObject metadata w, prefix @ ''/'' @ tag) = Some (fieldText L field)"
    by (simp add: writes_append writes_Cons map_add_def)
  with Marshal_result [of L metadata "before @ field # rest" prefix] show ?thesis by auto
qed


lemma Unmarshal_loop_append:
  "Unmarshal_loop L m p fs = (None, fs') \<Longrightarrow>
     Unmarshal_loop L m p (fs @ gs) = (case Unmarshal_loop L m p gs of (e, gs') \<Rightarrow> (e, fs' @ gs'))"
proof (induction fs arbitrary: fs')
  case Nil
  then show ?case by (auto split: prod.splits)
next
  case (Cons f fs)
  then show ?case
    by (auto split: option.splits prod.splits)
qed




text \<open>
  Claim C3. When \<^verbatim>\<open>Unmarshal\<close> has decoded the fields \<open>before\<close> without error and the next
  field has a recognised tag whose key \<^verbatim>\<open>prefix + "/" + tag\<close> is absent from the selected
  dictionary, it returns \<^verbatim>\<open>ErrValueMissing\<close>; the fields before keep their decoded values
  (those that decoding \<open>before\<close> alone gives), the failing field and the fields after it
  are untouched.
\<close>

theorem C3_missing_key_aborts:
  assumes "Unmarshal L metadata (PointerToStruct before) prefix = (None, PointerToStruct before')"
    and "lookupTag (ftag field) = Some (which, tag)"
    and "mapIndex (dictOf metadata which) (prefix @ ''/'' @ tag) = None"
  shows "Unmarshal L metadata (PointerToStruct (before @ field # rest)) prefix
           = (Some ErrValueMissing, PointerToStruct (before' @ field # rest))"
proof -
  from assms(1) have "Unmarshal_loop L metadata prefix before = (None, before')"
    by (auto simp: Unmarshal_def split: prod.splits)
  from Unmarshal_loop_append [OF this, of "field # rest"] assms(2,3)
  show ?thesis by (simp add: Unmarshal_def)
qed

theorem C3_witness:
  "Unmarshal noFloats
      (TwoMaps (Some [''prefix/skills'' \<mapsto> ''a,b''])
               (Some [''prefix/id'' \<mapsto> ''1'', ''prefix/name'' \<mapsto> ''John'']))
      (PointerToStruct zeroFields) ''prefix''
    = (Some ErrValueMissing, PointerToStruct (take 2 exampleFields @ drop 2 zeroFields))"
  using C3_missing_key_aborts [where L = noFloats and prefix = "''prefix''"
      and metadata = "TwoMaps (Some [''prefix/skills'' \<mapsto> ''a,b''])
               (Some [''prefix/id'' \<mapsto> ''1'', ''prefix/name'' \<mapsto> ''John''])"
      and before = "take 2 zeroFields" and before' = "take 2 exampleFields"
      and field = "zeroFields ! 2" and rest = "drop 3 zeroFields" and which = TheLabels
      and tag = "''age''"]
  by (simp add: eval_parse zeroFields_def exampleFields_def)



text \<open>
  Claim C9. \<^verbatim>\<open>Marshal\<close> of a pointer to a struct returns no error, and under every key
  that is not \<^verbatim>\<open>prefix + "/" + tag\<close> for a tagged field of the record both dictionaries
  hold after the call what they held before (nothing, if they held nothing).
\<close>

theorem C9_encode_frame:
  assumes "Marshal L metadata (PointerToStruct fs) prefix = (err, metadata')"
    and "key \<notin> snd ` set (writtenKeys prefix fs)"
  shows "err = None
    \<and> mapIndex (Labels metadata') key = mapIndex (Labels metadata) key
    \<and> mapIndex (Annotations metadata') key = mapIndex (Annotations metadata) key"
proof -
  from assms(2) have no: "(mapObject metadata w, key) \<notin> set (writtenCells metadata prefix fs)" for w
    by (force simp: writtenCells_def)
  from Marshal_frame [OF no, of L] assms(1)
  have "mapIndex (dictOf metadata' w) key = mapIndex (dictOf metadata w) key" for w
    by simp
  from this [of TheLabels] this [of TheAnnotations] Marshal_no_error [of L metadata fs prefix] assms(1)
  show ?thesis by (simp add: dictOf_def)
qed

theorem C9_witness:
  "mapIndex (Labels (snd (Marshal noFloats (TwoMaps (Some [''other/key'' \<mapsto> ''kept'']) None)
       (PointerToStruct exampleFields) ''prefix''))) ''other/key'' = Some ''kept''
   \<and> mapIndex (Annotations (snd (Marshal noFloats (TwoMaps (Some [''other/key'' \<mapsto> ''kept'']) None)
       (PointerToStruct exampleFields) ''prefix''))) ''other/key'' = None"
  using C9_encode_frame [where L = noFloats and prefix = "''prefix''" and fs = exampleFields
      and key = "''other/key''"
      and metadata = "TwoMaps (Some [''other/key'' \<mapsto> ''kept'']) None"
      and err = "fst (Marshal noFloats (TwoMaps (Some [''other/key'' \<mapsto> ''kept'']) None)
       (PointerToStruct exampleFields) ''prefix'')"
      and metadata' = "snd (Marshal noFloats (TwoMaps (Some [''other/key'' \<mapsto> ''kept'']) None)
       (PointerToStruct exampleFields) ''prefix'')"]
  by (simp add: writtenKeys_def fieldKey_def lookupTag_def Lookup_def exampleFields_def
        mapIndex_def)


section \<open>Unsupported types\<close>




section \<open>Durations\<close>



text \<open>
  Claim C8, as stated, fails: the elements of a \<^verbatim>\<open>[]time.Duration\<close> in an exported field
  are rendered by \<^verbatim>\<open>Duration.String()\<close>, in the unit-suffix grammar, not as plain
  integers.
\<close>

theorem C8_counterexample:
  "Marshal noFloats (TwoMaps None None)
       (PointerToStruct [\<lparr>ftype = TSlice TDuration, ftag = [(''annotation'', ''delays'')],
                           fexported = True,
                           fvalue = DSlice [DDuration 5400000000000, DDuration 1500000000]\<rparr>]) ''p''
     = (None, TwoMaps (Some Map.empty) (Some [''p/delays'' \<mapsto> ''1h30m0s,1.5s'']))"
  by (simp add: eval_format Lookup_def lookupTag_def Let_def)

text \<open>
  Claim C8, amended. For a tagged field of kind slice, \<^verbatim>\<open>Marshal\<close> stores under the field's
  key, in the dictionary of its tag, the \<^verbatim>\<open>fmt.Sprint\<close> renderings of the elements joined
  by \<^verbatim>\<open>","\<close> (the string is there after the call unless a later field writes the same
  entry); \<^verbatim>\<open>Marshal\<close> takes no separator. The elements of a slice of durations are
  rendered by \<^verbatim>\<open>Duration.String()\<close>, in the unit-suffix grammar, when the field is
  exported, and as decimal integers when it is not; those of a slice of signed integers
  are rendered as decimal integers in both cases.
\<close>

theorem C8_sequence_encode:
  assumes "Kind (ftype field) = KSlice"
    and "lookupTag (ftag field) = Some (which, tag)"
    and "(mapObject metadata which, prefix @ ''/'' @ tag) \<notin> set (writtenCells metadata prefix rest)"
  shows "mapIndex (dictOf (snd (Marshal L metadata (PointerToStruct (before @ field # rest)) prefix)) which)
             (prefix @ ''/'' @ tag)
           = Some (Join (map (Sprint L (fexported field)) (elems (fvalue field))) '','')
    \<and> (fvalue field = DSlice (map DDuration ds) \<longrightarrow>
         mapIndex (dictOf (snd (Marshal L metadata (PointerToStruct (before @ field # rest)) prefix)) which)
             (prefix @ ''/'' @ tag)
           = Some (Join (map (if fexported field then DurationString else FormatInt) ds) '',''))
    \<and> (fvalue field = DSlice (map DInt ns) \<longrightarrow>
         mapIndex (dictOf (snd (Marshal L metadata (PointerToStruct (before @ field # rest)) prefix)) which)
             (prefix @ ''/'' @ tag)
           = Some (Join (map FormatInt ns) '',''))"
proof -
  let ?stored = "mapIndex
    (dictOf (snd (Marshal L metadata (PointerToStruct (before @ field # rest)) prefix)) which)
    (prefix @ ''/'' @ tag)"
  have stored: "?stored = Some (Join (map (Sprint L (fexported field)) (elems (fvalue field))) '','')"
    using Marshal_stores [OF assms(2,3) refl, of L before] assms(1) by (simp add: fieldText_def)
  have durations: "map (Sprint L (fexported field)) (elems (fvalue field))
          = map (if fexported field then DurationString else FormatInt) ds"
    if "fvalue field = DSlice (map DDuration ds)"
    using that by (cases "fexported field") (simp_all add: comp_def)
  have ints: "map (Sprint L (fexported field)) (elems (fvalue field)) = map FormatInt ns"
    if "fvalue field = DSlice (map DInt ns)"
    using that by (simp add: comp_def)
  have "fvalue field = DSlice (map DDuration ds) \<longrightarrow>
      ?stored = Some (Join (map (if fexported field then DurationString else FormatInt) ds) '','')"
  proof
    assume v: "fvalue field = DSlice (map DDuration ds)"
    show "?stored = Some (Join (map (if fexported field then DurationString else FormatInt) ds) '','')"
      unfolding stored durations [OF v] ..
  qed
  moreover have "fvalue field = DSlice (map DInt ns) \<longrightarrow> ?stored = Some (Join (map FormatInt ns) '','')"
  proof
    assume v: "fvalue field = DSlice (map DInt ns)"
    show "?stored = Some (Join (map FormatInt ns) '','')"
      unfolding stored ints [OF v] ..
  qed
  ultimately show ?thesis using stored by (intro conjI)
qed

theorem C8_witness:
  "mapIndex (Labels (snd (Marshal noFloats (TwoMaps None None)
       (PointerToStruct exampleFields) ''prefix''))) ''prefix/skills''
     = Some ''cooking,swimming,driving''
   \<and> mapIndex (Annotations (snd (Marshal noFloats (TwoMaps None None)
       (PointerToStruct [\<lparr>ftype = TSlice TDuration, ftag = [(''annotation'', ''delays'')],
                           fexported = False,
                           fvalue = DSlice [DDuration 5400000000000, DDuration 1500000000]\<rparr>])
       ''p''))) ''p/delays''
     = Some ''5400000000000,1500000000''"
  using C8_sequence_encode [where L = noFloats and prefix = "''prefix''"
      and metadata = "TwoMaps None None"
      and before = "take 3 exampleFields" and field = "exampleFields ! 3" and rest = "[]"
      and which = TheLabels and tag = "''skills''"]
    C8_sequence_encode [where L = noFloats and prefix = "''p''"
      and metadata = "TwoMaps None None"
      and before = "[]" and rest = "[]" and which = TheAnnotations and tag = "''delays''"
      and ds = "[5400000000000, 1500000000]"
      and field = "\<lparr>ftype = TSlice TDuration, ftag = [(''annotation'', ''delays'')],
                           fexported = False,
                           fvalue = DSlice [DDuration 5400000000000, DDuration 1500000000]\<rparr>"]
  by (simp add: exampleFields_def lookupTag_def Lookup_def writtenCells_def writtenKeys_def
        dictOf_def eval_format)

section \<open>Duration.String and time.ParseDuration\<close>

lemma digitsValue_snoc: "digitsValue (ds @ [c]) = digitsValue ds * 10 + digitVal c"
  by (simp add: digitsValue_def)

lemma fmtInt_append: "fmtInt buf v = FormatUint v @ buf"
  using fmtInt_loop_append [of buf v] by (simp add: fmtInt_def FormatUint_def)

lemma fmtFrac_loop_spec:
  "\<exists>ds. fmtFrac_loop prec buf v print = (ds @ buf, v div 10 ^ prec, print \<or> ds \<noteq> [])
     \<and> list_all isDigit ds \<and> length ds \<le> prec
     \<and> (if print then length ds = prec \<and> digitsValue ds = v mod 10 ^ prec
         else digitsValue ds * 10 ^ (prec - length ds) = v mod 10 ^ prec
              \<and> (ds = [] \<longleftrightarrow> v mod 10 ^ prec = 0))"
proof (induction prec arbitrary: buf v print)
  case 0
  show ?case by (simp add: digitsValue_def)
next
  case (Suc i)
  define digit where "digit = v mod 10"
  define print' where "print' = (print \<or> digit \<noteq> 0)"
  define buf' where "buf' = (if print' then digitChar digit # buf else buf)"
  have step: "fmtFrac_loop (Suc i) buf v print = fmtFrac_loop i buf' (v div 10) print'"
    by (simp add: Let_def digit_def print'_def buf'_def)
  from Suc [of buf' "v div 10" print'] obtain ds where
    r: "fmtFrac_loop i buf' (v div 10) print' = (ds @ buf', v div 10 div 10 ^ i, print' \<or> ds \<noteq> [])"
    and dg: "list_all isDigit ds" and len: "length ds \<le> i"
    and val: "if print' then length ds = i \<and> digitsValue ds = v div 10 mod 10 ^ i
         else digitsValue ds * 10 ^ (i - length ds) = v div 10 mod 10 ^ i
              \<and> (ds = [] \<longleftrightarrow> v div 10 mod 10 ^ i = 0)"
    by blast
  have d10: "digit < 10" by (simp add: digit_def)
  have divdiv: "v div 10 div 10 ^ i = v div (10 * 10 ^ i)"
    by (simp add: div_mult2_eq)
  have modmod: "v mod (10 * 10 ^ i) = (v div 10 mod 10 ^ i) * 10 + digit"
    by (simp add: digit_def mod_mult2_eq)
  show ?case
  proof (cases print')
    case True
    let ?ds = "ds @ [digitChar digit]"
    from True val have v: "length ds = i" "digitsValue ds = v div 10 mod 10 ^ i" by simp_all
    have "fmtFrac_loop (Suc i) buf v print = (?ds @ buf, v div 10 ^ Suc i, print \<or> ?ds \<noteq> [])"
      using step r True by (simp add: buf'_def divdiv)
    moreover have "list_all isDigit ?ds" using dg d10 by (simp add: digitChar_digit)
    moreover have "length ?ds \<le> Suc i" using len by simp
    moreover have "digitsValue ?ds = v mod 10 ^ Suc i"
      using v d10 by (simp add: digitsValue_snoc digitChar_digit modmod)
    moreover have "length ?ds = Suc i" using v by simp
    moreover have "digit \<noteq> 0" if "\<not> print" using that True by (simp add: print'_def)
    then have "v mod 10 ^ Suc i \<noteq> 0" if "\<not> print" using that modmod by simp
    ultimately show ?thesis
      by (intro exI [of _ ?ds]) auto
  next
    case False
    then have np: "\<not> print" and d0: "digit = 0" by (simp_all add: print'_def)
    from False val have v: "digitsValue ds * 10 ^ (i - length ds) = v div 10 mod 10 ^ i"
      "ds = [] \<longleftrightarrow> v div 10 mod 10 ^ i = 0" by simp_all
    have "fmtFrac_loop (Suc i) buf v print = (ds @ buf, v div 10 ^ Suc i, print \<or> ds \<noteq> [])"
      using step r False np by (simp add: buf'_def divdiv)
    moreover have "digitsValue ds * 10 ^ (Suc i - length ds) = v mod 10 ^ Suc i"
      using v(1) len d0 by (simp add: modmod Suc_diff_le)
    moreover have "ds = [] \<longleftrightarrow> v mod 10 ^ Suc i = 0"
      using v(2) d0 by (simp add: modmod)
    ultimately show ?thesis
      using dg len np by (intro exI [of _ ds]) auto
  qed
qed

lemma fmtFrac_spec:
  "\<exists>ds. fmtFrac buf v prec =
          ((if v mod 10 ^ prec = 0 then [] else CHR ''.'' # ds) @ buf, v div 10 ^ prec)
     \<and> list_all isDigit ds \<and> length ds \<le> prec
     \<and> digitsValue ds * 10 ^ (prec - length ds) = v mod 10 ^ prec
     \<and> (ds = [] \<longleftrightarrow> v mod 10 ^ prec = 0)"
proof -
  from fmtFrac_loop_spec [of prec buf v False] obtain ds where
    "fmtFrac_loop prec buf v False = (ds @ buf, v div 10 ^ prec, ds \<noteq> [])"
    "list_all isDigit ds" "length ds \<le> prec"
    "digitsValue ds * 10 ^ (prec - length ds) = v mod 10 ^ prec"
    "ds = [] \<longleftrightarrow> v mod 10 ^ prec = 0"
    by auto
  then show ?thesis
    by (intro exI [of _ ds]) (auto simp: fmtFrac_def)
qed

lemma leadingInt_digits:
  assumes "list_all isDigit ds" and "foldl (\<lambda>n c. n * 10 + digitVal c) x ds \<le> 2 ^ 63"
    and "rest = [] \<or> \<not> isDigit (hd rest)"
  shows "leadingInt (ds @ rest) x = Some (foldl (\<lambda>n c. n * 10 + digitVal c) x ds, rest)"
  using assms
proof (induction ds arbitrary: x)
  case Nil
  then show ?case by (cases rest) auto
next
  case (Cons c ds)
  have "x * 10 + digitVal c \<le> foldl (\<lambda>n c. n * 10 + digitVal c) (x * 10 + digitVal c) ds"
    by (rule foldl_digits_ge)
  with Cons.prems(2) have le: "x * 10 + digitVal c \<le> 2 ^ 63" by simp
  then have "\<not> x > 2 ^ 63 div 10" by simp
  with le Cons show ?case by (simp add: Let_def)
qed

lemma leadingFraction_digits:
  assumes "list_all isDigit ds" and "foldl (\<lambda>n c. n * 10 + digitVal c) x ds \<le> 2 ^ 63 - 1"
    and "rest = [] \<or> \<not> isDigit (hd rest)"
  shows "leadingFraction (ds @ rest) x scale False =
           (foldl (\<lambda>n c. n * 10 + digitVal c) x ds, scale * 10 ^ length ds, rest)"
  using assms
proof (induction ds arbitrary: x scale)
  case Nil
  then show ?case by (cases rest) auto
next
  case (Cons c ds)
  have "x * 10 + digitVal c \<le> foldl (\<lambda>n c. n * 10 + digitVal c) (x * 10 + digitVal c) ds"
    by (rule foldl_digits_ge)
  with Cons.prems(2) have le: "x * 10 + digitVal c \<le> 2 ^ 63 - 1" by simp
  then have "\<not> x > (2 ^ 63 - 1) div 10" by simp
  with le Cons show ?case by (simp add: Let_def)
qed

lemma digitsValue_bound: "list_all isDigit ds \<Longrightarrow> digitsValue ds < 10 ^ length ds"
proof (induction ds rule: rev_induct)
  case Nil
  show ?case by (simp add: digitsValue_def)
next
  case (snoc c ds)
  then have "digitsValue ds < 10 ^ length ds" and "digitVal c \<le> 9"
    by (auto simp: isDigit_def digitVal_def)
  then have "digitsValue ds * 10 + digitVal c < 10 * 10 ^ length ds" by simp
  then show ?case by (simp add: digitsValue_snoc)
qed

lemma unitChar_takeWhile:
  assumes "list_all unitChar us" and "rest = [] \<or> \<not> unitChar (hd rest)"
  shows "takeWhile unitChar (us @ rest) = us" and "dropWhile unitChar (us @ rest) = rest"
  using assms by (induction us) (auto simp: takeWhile_eq_Nil_iff dropWhile_eq_self_iff)

lemma parseDurationTerm_plain:
  assumes "unitMap us = Some unit" and "us \<noteq> []" and "list_all unitChar us"
    and "rest = [] \<or> \<not> unitChar (hd rest)" and "a * unit \<le> 2 ^ 63" and "0 < unit"
  shows "parseDurationTerm frac (FormatUint a @ us @ rest) = Some (a * unit, rest)"
proof -
  let ?s = "FormatUint a @ us @ rest"
  from assms(2,3) have hdus: "unitChar (hd us)" by (cases us) simp_all
  then have nd: "\<not> isDigit (hd (us @ rest))" and ndot: "hd (us @ rest) \<noteq> CHR ''.''"
    using assms(2) by (simp_all add: unitChar_def)
  from assms(5,6) have a: "a \<le> 2 ^ 63"
    by (metis le_trans mult.right_neutral mult_le_mono2 Suc_leI One_nat_def)
  have li: "leadingInt ?s 0 = Some (a, us @ rest)"
    using leadingInt_digits [OF FormatUint_digits, of 0 a "us @ rest"] a nd assms(2)
    by (simp add: FormatUint_value [unfolded digitsValue_def])
  have hd: "isDigit (hd ?s)" using FormatUint_hd [of a] FormatUint_nonempty [of a] by simp
  have ne: "?s \<noteq> []" using FormatUint_nonempty [of a] by simp
  have pre: "length ?s \<noteq> length (us @ rest)" using FormatUint_nonempty [of a] by simp
  have div: "\<not> a > 2 ^ 63 div unit"
    using assms(5,6) by (simp add: less_eq_div_iff_mult_less_eq not_less)
  show ?thesis
    unfolding parseDurationTerm_def
    using ne hd li pre ndot assms(1,2) div unitChar_takeWhile [OF assms(3,4)]
    by (simp add: Let_def)
qed

lemma parseDurationTerm_fraction:
  assumes "unitMap us = Some (10 ^ p)" and "us \<noteq> []" and "list_all unitChar us"
    and "rest = [] \<or> \<not> unitChar (hd rest)" and "p \<le> 9"
    and "ds \<noteq> []" and "list_all isDigit ds" and "length ds \<le> p"
    and "a * 10 ^ p + digitsValue ds * 10 ^ (p - length ds) \<le> 2 ^ 63"
    and "fracExact frac"
  shows "parseDurationTerm frac (FormatUint a @ CHR ''.'' # ds @ us @ rest)
           = Some (a * 10 ^ p + digitsValue ds * 10 ^ (p - length ds), rest)"
proof -
  let ?s1 = "CHR ''.'' # ds @ us @ rest"
  let ?s = "FormatUint a @ ?s1"
  let ?f = "digitsValue ds"
  from assms(2,3) have hdus: "unitChar (hd us)" by (cases us) simp_all
  then have nd: "\<not> isDigit (hd (us @ rest))"
    using assms(2) by (simp add: unitChar_def)
  have a: "a \<le> 2 ^ 63"
  proof -
    have "a \<le> a * 10 ^ p" by simp
    with assms(9) show ?thesis by linarith
  qed
  have li: "leadingInt ?s 0 = Some (a, ?s1)"
    using leadingInt_digits [OF FormatUint_digits, of 0 a ?s1] a
    by (simp add: FormatUint_value [unfolded digitsValue_def] isDigit_def)
  have fb: "?f < 10 ^ length ds" using assms(7) by (rule digitsValue_bound)
  have "(10::nat) ^ length ds \<le> 10 ^ 9"
    using assms(5,8) by (intro power_increasing) simp_all
  with fb have f63: "?f \<le> 2 ^ 63 - 1" by simp
  have lf: "leadingFraction (ds @ us @ rest) 0 1 False = (?f, 10 ^ length ds, us @ rest)"
    using leadingFraction_digits [OF assms(7), of 0 "us @ rest" 1] f63 nd assms(2)
    by (simp add: digitsValue_def)
  have hd: "isDigit (hd ?s)" using FormatUint_hd [of a] FormatUint_nonempty [of a] by simp
  have ne: "?s \<noteq> []" by simp
  have pre: "length ?s \<noteq> length ?s1" using FormatUint_nonempty [of a] by simp
  have div: "\<not> a > 2 ^ 63 div 10 ^ p"
  proof -
    have "a * 10 ^ p \<le> 2 ^ 63" using assms(9) by linarith
    then show ?thesis by (simp add: less_eq_div_iff_mult_less_eq not_less)
  qed
  have fr: "frac ?f (10 ^ length ds) (10 ^ p) = ?f * 10 ^ (p - length ds)"
    using assms(10,5,8) fb by (simp add: fracExact_def)
  have small: "(a * 10 ^ p + ?f * 10 ^ (p - length ds)) mod 2 ^ 64
                 = a * 10 ^ p + ?f * 10 ^ (p - length ds)"
    using assms(9) by simp
  have le: "\<not> a * 10 ^ p + ?f * 10 ^ (p - length ds) > 2 ^ 63"
    using assms(9) by simp
  show ?thesis
    unfolding parseDurationTerm_def
    using ne hd li pre lf assms(1,2) div unitChar_takeWhile [OF assms(3,4)] fr small le
    by (simp add: Let_def)
qed

lemma ParseDuration_loop_Nil: "ParseDuration_loop frac [] d = Some d"
  by (simp add: ParseDuration_loop.simps [of frac "[]" d])

lemma ParseDuration_loop_step:
  assumes "parseDurationTerm frac s = Some (v, rest)" and "d + v \<le> 2 ^ 63"
  shows "ParseDuration_loop frac s d = ParseDuration_loop frac rest (d + v)"
proof -
  from assms(1) have "s \<noteq> []" by (auto simp: parseDurationTerm_def)
  moreover from assms(2) have "(d + v) mod 2 ^ 64 = d + v" by simp
  ultimately show ?thesis
    using assms by (simp add: ParseDuration_loop.simps [of frac s d] Let_def)
qed


lemma DurationString_body:
  assumes "- (2 ^ 63) \<le> d" and "d < 2 ^ 63"
  shows "DurationString d =
           (if d < 0 then CHR ''-'' # durationBody (nat (- d)) else durationBody (nat d))"
proof (cases "d < 0")
  case False
  then have "nat (d mod 2 ^ 64) = nat d" using assms(2) by simp
  with False show ?thesis
    by (simp add: DurationString_def durationBody_def Let_def)
next
  case True
  have "d mod 2 ^ 64 = (d + 2 ^ 64) mod 2 ^ 64" by simp
  also have "\<dots> = d + 2 ^ 64" using True assms(1) by (intro mod_pos_pos_trivial) simp_all
  finally have "nat (d mod 2 ^ 64) = nat (d + 2 ^ 64)" by simp
  with True assms(1) have u: "(2 ^ 64 - nat (d mod 2 ^ 64)) mod 2 ^ 64 = nat (- d)"
    by (simp add: nat_diff_distrib' nat_add_distrib)
  from True have pos: "nat (- d) \<noteq> 0" by simp
  show ?thesis
  proof (cases "nat (- d) < Second")
    case True
    with \<open>d < 0\<close> pos u show ?thesis
      by (simp add: DurationString_def durationBody_def Let_def case_prod_beta)
  next
    case False
    with \<open>d < 0\<close> pos u show ?thesis
      by (simp add: DurationString_def durationBody_def Let_def case_prod_beta)
  qed
qed

lemma lastTerm_plain:
  assumes "unitMap us = Some (10 ^ p)" and "us \<noteq> []" and "list_all unitChar us"
    and "d0 + a * 10 ^ p \<le> 2 ^ 63"
  shows "ParseDuration_loop frac (FormatUint a @ us) d0 = Some (d0 + a * 10 ^ p)"
proof -
  have "parseDurationTerm frac (FormatUint a @ us @ []) = Some (a * 10 ^ p, [])"
    using assms(1,2,3)
  proof (rule parseDurationTerm_plain)
    show "[] = [] \<or> \<not> unitChar (hd [])" by simp
    show "a * 10 ^ p \<le> 2 ^ 63" using assms(4) by linarith
    show "(0::nat) < 10 ^ p" by simp
  qed
  then have "parseDurationTerm frac (FormatUint a @ us) = Some (a * 10 ^ p, [])" by simp
  from ParseDuration_loop_step [OF this assms(4)] show ?thesis
    by (simp only: ParseDuration_loop_Nil)
qed

lemma lastTerm_fraction:
  assumes "unitMap us = Some (10 ^ p)" and "us \<noteq> []" and "list_all unitChar us" and "p \<le> 9"
    and "ds \<noteq> []" and "list_all isDigit ds" and "length ds \<le> p"
    and "d0 + (a * 10 ^ p + digitsValue ds * 10 ^ (p - length ds)) \<le> 2 ^ 63"
    and "fracExact frac"
  shows "ParseDuration_loop frac (FormatUint a @ CHR ''.'' # ds @ us) d0
           = Some (d0 + (a * 10 ^ p + digitsValue ds * 10 ^ (p - length ds)))"
proof -
  have "parseDurationTerm frac (FormatUint a @ CHR ''.'' # ds @ us @ [])
          = Some (a * 10 ^ p + digitsValue ds * 10 ^ (p - length ds), [])"
    using assms(1,2,3) _ assms(4,5,6,7) _ assms(9)
  proof (rule parseDurationTerm_fraction)
    show "[] = [] \<or> \<not> unitChar (hd [])" by simp
    show "a * 10 ^ p + digitsValue ds * 10 ^ (p - length ds) \<le> 2 ^ 63"
      using assms(8) by linarith
  qed
  then have "parseDurationTerm frac (FormatUint a @ CHR ''.'' # ds @ us)
          = Some (a * 10 ^ p + digitsValue ds * 10 ^ (p - length ds), [])" by simp
  from ParseDuration_loop_step [OF this assms(8)] show ?thesis
    by (simp only: ParseDuration_loop_Nil)
qed

lemma lastTerm:
  assumes "unitMap us = Some (10 ^ p)" and "us \<noteq> []" and "list_all unitChar us" and "p \<le> 9"
    and "d0 + (a * 10 ^ p + u mod 10 ^ p) \<le> 2 ^ 63"
    and "fracExact frac \<or> u mod 10 ^ p = 0"
  shows "\<exists>t. fmtInt (fst (fmtFrac us u p)) a = FormatUint a @ t @ us
            \<and> set t \<subseteq> insert (CHR ''.'') {c. isDigit c}
            \<and> ParseDuration_loop frac (FormatUint a @ t @ us) d0
                 = Some (d0 + (a * 10 ^ p + u mod 10 ^ p))"
proof -
  from fmtFrac_spec [of us u p] obtain ds where
    "fmtFrac us u p = ((if u mod 10 ^ p = 0 then [] else CHR ''.'' # ds) @ us, u div 10 ^ p)
      \<and> list_all isDigit ds \<and> length ds \<le> p
      \<and> digitsValue ds * 10 ^ (p - length ds) = u mod 10 ^ p
      \<and> (ds = [] \<longleftrightarrow> u mod 10 ^ p = 0)" ..
  then have
    ff: "fmtFrac us u p = ((if u mod 10 ^ p = 0 then [] else CHR ''.'' # ds) @ us, u div 10 ^ p)"
    and dg: "list_all isDigit ds" and len: "length ds \<le> p"
    and val: "digitsValue ds * 10 ^ (p - length ds) = u mod 10 ^ p"
    and emp: "ds = [] \<longleftrightarrow> u mod 10 ^ p = 0"
    by simp_all
  show ?thesis
  proof (cases "u mod 10 ^ p = 0")
    case True
    with assms(5) have "d0 + a * 10 ^ p \<le> 2 ^ 63" by linarith
    with assms(1,2,3)
    have "ParseDuration_loop frac (FormatUint a @ us) d0 = Some (d0 + a * 10 ^ p)"
      by (rule lastTerm_plain)
    with True have "ParseDuration_loop frac (FormatUint a @ [] @ us) d0
                      = Some (d0 + (a * 10 ^ p + u mod 10 ^ p))" by simp
    moreover from True have "fmtInt (fst (fmtFrac us u p)) a = FormatUint a @ [] @ us"
      by (simp add: ff fmtInt_append)
    ultimately show ?thesis by (intro exI [of _ "[]"]) simp
  next
    case False
    with assms(6) have ex: "fracExact frac" by simp
    from False emp have ne: "ds \<noteq> []" by simp
    from assms(5) val
    have "d0 + (a * 10 ^ p + digitsValue ds * 10 ^ (p - length ds)) \<le> 2 ^ 63" by simp
    with assms(1,2,3,4) ne dg len
    have "ParseDuration_loop frac (FormatUint a @ CHR ''.'' # ds @ us) d0
           = Some (d0 + (a * 10 ^ p + digitsValue ds * 10 ^ (p - length ds)))"
      using ex by (rule lastTerm_fraction)
    with val have "ParseDuration_loop frac (FormatUint a @ (CHR ''.'' # ds) @ us) d0
           = Some (d0 + (a * 10 ^ p + u mod 10 ^ p))" by simp
    moreover from False have "fmtInt (fst (fmtFrac us u p)) a = FormatUint a @ (CHR ''.'' # ds) @ us"
      by (simp add: ff fmtInt_append)
    moreover have "set (CHR ''.'' # ds) \<subseteq> insert (CHR ''.'') {c. isDigit c}"
      using dg by (auto simp: list_all_iff)
    ultimately show ?thesis by (intro exI [of _ "CHR ''.'' # ds"]) simp
  qed
qed

lemma fmtFrac_snd: "snd (fmtFrac buf v prec) = v div 10 ^ prec"
  using fmtFrac_spec [of buf v prec] by auto

lemma unit_strings:
  "unitMap ''ns'' = Some (10 ^ 0)" "list_all unitChar ''ns''"
  "unitMap [CHR 0xC2, CHR 0xB5, CHR ''s''] = Some (10 ^ 3)"
  "list_all unitChar [CHR 0xC2, CHR 0xB5, CHR ''s'']"
  "unitMap ''ms'' = Some (10 ^ 6)" "list_all unitChar ''ms''"
  "unitMap ''s'' = Some (10 ^ 9)" "list_all unitChar ''s''"
  "unitMap ''m'' = Some Minute" "list_all unitChar ''m''"
  "unitMap ''h'' = Some Hour" "list_all unitChar ''h''"
  by (simp_all add: unitMap_def unitChar_def isDigit_def Microsecond_def Millisecond_def Second_def)

lemma digit_not_unitChar: "isDigit c \<Longrightarrow> \<not> unitChar c"
  by (simp add: unitChar_def)

lemma durationBody_small:
  assumes "0 < u" and "u < Second" and "fracExact frac"
  shows "\<exists>a t. durationBody u = FormatUint a @ t \<and> t \<noteq> [] \<and> CHR '','' \<notin> set t
            \<and> ParseDuration_loop frac (durationBody u) 0 = Some u"
proof -
  define p :: nat where "p = (if u < Microsecond then 0 else if u < Millisecond then 3 else 6)"
  define us where "us = (if u < Microsecond then ''ns''
     else if u < Millisecond then [CHR 0xC2, CHR 0xB5, CHR ''s''] else ''ms'')"
  have body: "durationBody u = fmtInt (fst (fmtFrac us u p)) (u div 10 ^ p)"
    using assms(1,2)
    by (simp add: durationBody_def p_def us_def Let_def case_prod_beta fmtFrac_snd)
  have um: "unitMap us = Some (10 ^ p)" and uc: "list_all unitChar us" and une: "us \<noteq> []"
    and p9: "p \<le> 9" and nc: "CHR '','' \<notin> set us"
    using unit_strings by (simp_all add: p_def us_def)
  have eq: "0 + (u div 10 ^ p * 10 ^ p + u mod 10 ^ p) = u"
    by (simp only: add_0_left div_mult_mod_eq)
  have bound: "0 + (u div 10 ^ p * 10 ^ p + u mod 10 ^ p) \<le> 2 ^ 63"
    unfolding eq using assms(2) by (simp add: Second_def)
  from lastTerm [OF um une uc p9 bound, of frac] assms(3) obtain t where
    t: "fmtInt (fst (fmtFrac us u p)) (u div 10 ^ p) = FormatUint (u div 10 ^ p) @ t @ us"
    "set t \<subseteq> insert (CHR ''.'') {c. isDigit c}"
    "ParseDuration_loop frac (FormatUint (u div 10 ^ p) @ t @ us) 0
       = Some (0 + (u div 10 ^ p * 10 ^ p + u mod 10 ^ p))"
    by auto
  from t(2) have "CHR '','' \<notin> set t" by (auto simp: isDigit_def)
  with nc have "CHR '','' \<notin> set (t @ us)" by simp
  moreover from une have "t @ us \<noteq> []" by simp
  moreover from t(1,3) body have "ParseDuration_loop frac (durationBody u) 0 = Some u"
    by (simp only: eq)
  moreover from t(1) body have "durationBody u = FormatUint (u div 10 ^ p) @ (t @ us)" by simp
  ultimately show ?thesis by blast
qed

lemma lastTerm_loop:
  assumes "unitMap us = Some (10 ^ p)" and "us \<noteq> []" and "list_all unitChar us" and "p \<le> 9"
    and "d0 + (a * 10 ^ p + u mod 10 ^ p) \<le> 2 ^ 63"
    and "fracExact frac \<or> u mod 10 ^ p = 0"
  shows "ParseDuration_loop frac (fmtInt (fst (fmtFrac us u p)) a) d0
           = Some (d0 + (a * 10 ^ p + u mod 10 ^ p))"
  using lastTerm [OF assms] by auto

lemma lastTerm_shape:
  "\<exists>t. fmtInt (fst (fmtFrac us u p)) a = FormatUint a @ t @ us
       \<and> set t \<subseteq> insert (CHR ''.'') {c. isDigit c}"
proof -
  from fmtFrac_spec [of us u p] obtain ds where
    "fmtFrac us u p = ((if u mod 10 ^ p = 0 then [] else CHR ''.'' # ds) @ us, u div 10 ^ p)
      \<and> list_all isDigit ds \<and> length ds \<le> p
      \<and> digitsValue ds * 10 ^ (p - length ds) = u mod 10 ^ p
      \<and> (ds = [] \<longleftrightarrow> u mod 10 ^ p = 0)" ..
  then have
    ff: "fmtFrac us u p = ((if u mod 10 ^ p = 0 then [] else CHR ''.'' # ds) @ us, u div 10 ^ p)"
    and dg: "list_all isDigit ds"
    by simp_all
  have "fmtInt (fst (fmtFrac us u p)) a
          = FormatUint a @ (if u mod 10 ^ p = 0 then [] else CHR ''.'' # ds) @ us"
    by (simp add: ff fmtInt_append)
  moreover have "set (if u mod 10 ^ p = 0 then [] else CHR ''.'' # ds)
                   \<subseteq> insert (CHR ''.'') {c. isDigit c}"
    using dg by (auto simp: list_all_iff)
  ultimately show ?thesis by blast
qed

lemma plainTerm_step:
  assumes "unitMap us = Some unit" and "us \<noteq> []" and "list_all unitChar us"
    and "rest \<noteq> []" and "isDigit (hd rest)" and "d + a * unit \<le> 2 ^ 63" and "0 < unit"
  shows "ParseDuration_loop frac (FormatUint a @ us @ rest) d
           = ParseDuration_loop frac rest (d + a * unit)"
proof -
  have "parseDurationTerm frac (FormatUint a @ us @ rest) = Some (a * unit, rest)"
    using assms(1,2,3)
  proof (rule parseDurationTerm_plain)
    show "rest = [] \<or> \<not> unitChar (hd rest)" using assms(5) by (simp add: digit_not_unitChar)
    show "a * unit \<le> 2 ^ 63" using assms(6) by linarith
    show "0 < unit" by (rule assms(7))
  qed
  then show ?thesis using assms(6) by (rule ParseDuration_loop_step)
qed

lemma durationBody_large:
  assumes "Second \<le> u" and "u \<le> 2 ^ 63" and "fracExact frac \<or> u mod 10 ^ 9 = 0"
  shows "\<exists>a t. durationBody u = FormatUint a @ t \<and> t \<noteq> [] \<and> CHR '','' \<notin> set t
            \<and> ParseDuration_loop frac (durationBody u) 0 = Some u"
proof -
  define U where "U = u div 10 ^ 9"
  define r where "r = u mod 10 ^ 9"
  define S where "S = U mod 60"
  define U2 where "U2 = U div 60"
  define M where "M = U2 mod 60"
  define H where "H = U2 div 60"
  define R where "R = fmtInt (fst (fmtFrac ''s'' u 9)) S"
  have u: "u = U * 1000000000 + r" by (simp add: U_def r_def)
  have U: "U = U2 * 60 + S" by (simp add: U2_def S_def)
  have U2: "U2 = H * 60 + M" by (simp add: H_def M_def)
  have total: "u = H * 3600000000000 + M * 60000000000 + S * 1000000000 + r"
    using u U U2 by simp
  have body: "durationBody u =
      (if U2 > 0 then (if H > 0 then FormatUint H @ ''h'' @ FormatUint M @ ''m'' @ R
                       else FormatUint M @ ''m'' @ R)
       else R)"
    using assms(1)
    by (simp add: durationBody_def Let_def case_prod_beta fmtFrac_snd fmtInt_append [of "_ # _"]
          U_def S_def U2_def M_def H_def R_def)
  from lastTerm_shape [of "''s''" u 9 S] obtain t where
    R: "R = FormatUint S @ t @ ''s''" and t: "set t \<subseteq> insert (CHR ''.'') {c. isDigit c}"
    unfolding R_def by blast
  from t have tc: "CHR '','' \<notin> set t" by (auto simp: isDigit_def)
  have Rhd: "R \<noteq> []" "isDigit (hd R)"
    using FormatUint_nonempty [of S] FormatUint_hd [of S] by (simp_all add: R)
  have Rc: "CHR '','' \<notin> set R" using tc comma_notin_FormatUint [of S] by (simp add: R)
  have last: "ParseDuration_loop frac R d0 = Some (d0 + (S * 10 ^ 9 + r))"
    if "d0 + (S * 10 ^ 9 + r) \<le> 2 ^ 63" for d0
    unfolding R_def r_def
    using unit_strings(7) _ unit_strings(8) _ that [unfolded r_def] assms(3)
    by (rule lastTerm_loop) simp_all
  show ?thesis
  proof (cases "U2 > 0")
    case False
    then have "H = 0" "M = 0" by (simp_all add: H_def M_def)
    with total assms(2) have "0 + (S * 10 ^ 9 + r) \<le> 2 ^ 63" "0 + (S * 10 ^ 9 + r) = u" by simp_all
    with last [of 0] have "ParseDuration_loop frac R 0 = Some u" by simp
    with False body R tc show ?thesis
      by (intro exI [of _ S] exI [of _ "t @ ''s''"]) simp
  next
    case True
    have mstep: "ParseDuration_loop frac (FormatUint M @ ''m'' @ R) d
                   = Some (d + M * Minute + (S * 10 ^ 9 + r))"
      if "d + M * Minute + (S * 10 ^ 9 + r) \<le> 2 ^ 63" for d
    proof -
      have "ParseDuration_loop frac (FormatUint M @ ''m'' @ R) d
              = ParseDuration_loop frac R (d + M * Minute)"
        using unit_strings(9) _ unit_strings(10) Rhd
      proof (rule plainTerm_step)
        show "''m'' \<noteq> []" by simp
        show "d + M * Minute \<le> 2 ^ 63" using that by linarith
        show "0 < Minute" by (simp add: Minute_def)
      qed
      with last [of "d + M * Minute"] that show ?thesis by simp
    qed
    show ?thesis
    proof (cases "H > 0")
      case False
      with total assms(2) have "0 + M * Minute + (S * 10 ^ 9 + r) \<le> 2 ^ 63"
        "0 + M * Minute + (S * 10 ^ 9 + r) = u" by (simp_all add: Minute_def)
      with mstep [of 0] have "ParseDuration_loop frac (FormatUint M @ ''m'' @ R) 0 = Some u"
        by simp
      with False True body Rc show ?thesis
        by (intro exI [of _ M] exI [of _ "''m'' @ R"]) simp
    next
      case Hpos: True
      from total assms(2) have b: "0 + H * Hour + M * Minute + (S * 10 ^ 9 + r) \<le> 2 ^ 63"
        "0 + H * Hour + M * Minute + (S * 10 ^ 9 + r) = u" by (simp_all add: Minute_def Hour_def)
      have "ParseDuration_loop frac (FormatUint H @ ''h'' @ FormatUint M @ ''m'' @ R) 0
              = ParseDuration_loop frac (FormatUint M @ ''m'' @ R) (0 + H * Hour)"
        using unit_strings(11) _ unit_strings(12)
      proof (rule plainTerm_step)
        show "''h'' \<noteq> []" by simp
        show "FormatUint M @ ''m'' @ R \<noteq> []" by simp
        show "isDigit (hd (FormatUint M @ ''m'' @ R))"
          using FormatUint_nonempty [of M] FormatUint_hd [of M] by simp
        show "0 + H * Hour \<le> 2 ^ 63" using b(1) by linarith
        show "0 < Hour" by (simp add: Hour_def)
      qed
      with mstep [of "0 + H * Hour"] b
      have "ParseDuration_loop frac (FormatUint H @ ''h'' @ FormatUint M @ ''m'' @ R) 0 = Some u"
        by simp
      with Hpos True body Rc comma_notin_FormatUint [of M] show ?thesis
        by (intro exI [of _ H] exI [of _ "''h'' @ FormatUint M @ ''m'' @ R"]) simp
    qed
  qed
qed

lemma durationBody_parse:
  assumes "0 < u" and "u \<le> 2 ^ 63" and "fracExact frac \<or> u mod 10 ^ 9 = 0"
  shows "\<exists>a t. durationBody u = FormatUint a @ t \<and> t \<noteq> [] \<and> CHR '','' \<notin> set t
            \<and> ParseDuration_loop frac (durationBody u) 0 = Some u"
proof (cases "u < Second")
  case True
  with assms(1) have "u mod 10 ^ 9 \<noteq> 0" by (simp add: Second_def)
  with assms(3) have "fracExact frac" by simp
  with assms(1) True show ?thesis by (rule durationBody_small)
next
  case False
  then have "Second \<le> u" by simp
  then show ?thesis using assms(2,3) by (rule durationBody_large)
qed

lemma ParseDuration_DurationString:
  assumes "- (2 ^ 63) \<le> d" and "d < 2 ^ 63" and "fracExact frac \<or> d mod 10 ^ 9 = 0"
  shows "ParseDuration frac (DurationString d) = Some d \<and> CHR '','' \<notin> set (DurationString d)"
proof (cases "d = 0")
  case True
  have "DurationString 0 = ''0s''" by (simp add: DurationString_def Second_def)
  moreover have "ParseDuration frac ''0s'' = Some 0" by (simp add: eval_duration Let_def)
  ultimately show ?thesis using True by simp
next
  case False
  define u where "u = nat \<bar>d\<bar>"
  have u0: "0 < u" using False by (simp add: u_def)
  have u63: "u \<le> 2 ^ 63" using assms(1,2) by (simp add: u_def)
  have "u mod 10 ^ 9 = 0" if "d mod 10 ^ 9 = 0"
  proof -
    from that have "10 ^ 9 dvd d" by (simp add: dvd_eq_mod_eq_0)
    then have "10 ^ 9 dvd \<bar>d\<bar>" by simp
    then have "(10::nat) ^ 9 dvd u" unfolding u_def
      by (metis int_dvd_int_iff nat_0_le abs_ge_zero of_nat_numeral of_nat_power)
    then show ?thesis by (simp add: dvd_eq_mod_eq_0)
  qed
  with assms(3) have "fracExact frac \<or> u mod 10 ^ 9 = 0" by auto
  with u0 u63 have "\<exists>a t. durationBody u = FormatUint a @ t \<and> t \<noteq> [] \<and> CHR '','' \<notin> set t
            \<and> ParseDuration_loop frac (durationBody u) 0 = Some u"
    by (rule durationBody_parse)
  then obtain a where "\<exists>t. durationBody u = FormatUint a @ t \<and> t \<noteq> [] \<and> CHR '','' \<notin> set t
            \<and> ParseDuration_loop frac (durationBody u) 0 = Some u" ..
  then obtain t where "durationBody u = FormatUint a @ t \<and> t \<noteq> [] \<and> CHR '','' \<notin> set t
            \<and> ParseDuration_loop frac (durationBody u) 0 = Some u" ..
  note all = this
  from all have body: "durationBody u = FormatUint a @ t" by (elim conjE)
  from all have t: "t \<noteq> []" by (elim conjE)
  from all have tc: "CHR '','' \<notin> set t" by (elim conjE)
  from all have loop: "ParseDuration_loop frac (durationBody u) 0 = Some u" by (elim conjE)
  have ne: "durationBody u \<noteq> []" by (simp add: body t)
  have hd: "isDigit (hd (durationBody u))"
    using FormatUint_hd [of a] FormatUint_nonempty [of a] by (simp add: body)
  then have nosign: "hd (durationBody u) \<noteq> CHR ''-''" "hd (durationBody u) \<noteq> CHR ''+''"
    using isDigit_not_sign by blast+
  have "length (durationBody u) \<ge> 2"
    using FormatUint_nonempty [of a] t unfolding body
    by (cases "FormatUint a"; cases t) simp_all
  then have not0: "durationBody u \<noteq> ''0''" by auto
  have nc: "CHR '','' \<notin> set (durationBody u)"
    using tc comma_notin_FormatUint [of a] by (simp add: body)
  show ?thesis
  proof (cases "d < 0")
    case True
    then have ud: "u = nat (- d)" "- int u = d" by (simp_all add: u_def)
    from True assms(1,2) have ds: "DurationString d = CHR ''-'' # durationBody u"
      by (simp add: DurationString_body ud(1))
    have "ParseDuration frac (CHR ''-'' # durationBody u) = Some d"
      using ne not0 loop ud(2) by (simp add: ParseDuration_def)
    with nc show ?thesis by (simp add: ds)
  next
    case pos: False
    then have ud: "u = nat d" "int u = d" by (simp_all add: u_def)
    from pos assms(1,2) have ds: "DurationString d = durationBody u"
      by (simp add: DurationString_body ud(1))
    from assms(2) ud have "\<not> u > 2 ^ 63 - 1" by simp
    then have "ParseDuration frac (durationBody u) = Some d"
      using ne not0 loop ud(2) nosign by (simp add: ParseDuration_def)
    with nc show ?thesis by (simp add: ds)
  qed
qed

section \<open>Round trip\<close>

lemma fracExact_noFloats: "fracExact (DurationFrac noFloats)"
proof -
  have "f * ((10::nat) ^ p div 10 ^ k) = f * 10 ^ (p - k)" if "k \<le> p" for f k p
    using that by (simp add: power_diff)
  then show ?thesis by (simp add: fracExact_def noFloats_def)
qed

lemma parseValue_int:
  assumes "intBits (ftype t) = Some bits"
  shows "parseValue L t raw =
           (case ParseInt raw bits of
              Inl err \<Rightarrow> (Some ErrConversion, t)
            | Inr i \<Rightarrow> SetValue t (DInt i))
         \<and> 2 \<le> bits \<and> bits \<le> 64"
  using assms by (cases "ftype t") (auto simp: parseValue_def)

lemma parseValue_uint:
  assumes "uintBits (ftype t) = Some bits"
  shows "parseValue L t raw =
           (case ParseUint raw bits of
              Inl err \<Rightarrow> (Some ErrConversion, t)
            | Inr i \<Rightarrow> SetValue t (DUint i))
         \<and> bits \<le> 64"
  using assms by (cases "ftype t") (auto simp: parseValue_def)

lemma parseValue_scalar_round_trip:
  assumes "scalarOK L (ftype t) d"
  shows "parseValue L t (Sprint L True d) = SetValue t d"
proof (cases d)
  case (DString s)
  with assms show ?thesis by (simp add: scalarOK_def parseValue_def)
next
  case (DBool b)
  with assms show ?thesis by (simp add: scalarOK_def parseValue_def ParseBool_def)
next
  case (DInt i)
  with assms obtain bits where b: "intBits (ftype t) = Some bits"
    and r: "- (2 ^ (bits - 1)) \<le> i" "i < 2 ^ (bits - 1)"
    by (auto simp: scalarOK_def split: option.splits)
  from parseValue_int [OF b, of L "FormatInt i"] have "2 \<le> bits" "bits \<le> 64" by simp_all
  from ParseInt_FormatInt [OF this r] parseValue_int [OF b, of L "FormatInt i"] DInt
  show ?thesis by simp
next
  case (DUint n)
  with assms obtain bits where b: "uintBits (ftype t) = Some bits" and r: "n < 2 ^ bits"
    by (auto simp: scalarOK_def split: option.splits)
  from parseValue_uint [OF b, of L "FormatUint n"] have "bits \<le> 64" by simp
  from ParseUint_FormatUint [OF this r] parseValue_uint [OF b, of L "FormatUint n"] DUint
  show ?thesis by simp
next
  case (DDuration x)
  with assms have ty: "ftype t = TDuration" and r: "- (2 ^ 63) \<le> x" "x < 2 ^ 63"
    and ex: "fracExact (DurationFrac L) \<or> x mod 10 ^ 9 = 0"
    by (simp_all add: scalarOK_def)
  from ParseDuration_DurationString [OF r ex]
  have "ParseDuration (DurationFrac L) (DurationString x) = Some x" by (rule conjunct1)
  with ty DDuration show ?thesis by (simp add: parseValue_def)
next
  case (DFloat32 x)
  with assms show ?thesis by (simp add: scalarOK_def parseValue_def)
next
  case (DFloat64 x)
  with assms show ?thesis by (simp add: scalarOK_def parseValue_def)
next
  case (DComplex64 z)
  with assms show ?thesis by (simp add: scalarOK_def parseValue_def)
next
  case (DComplex128 z)
  with assms show ?thesis by (simp add: scalarOK_def parseValue_def)
qed (use assms in \<open>simp_all add: scalarOK_def\<close>)

lemma Split_loop_piece:
  assumes "c \<notin> set x"
  shows "Split_loop [c] cur x 0 = [rev cur @ x]"
    and "Split_loop [c] cur (x @ c # rest) 0 = (rev cur @ x) # Split_loop [c] [] rest 0"
  using assms by (induction x arbitrary: cur) auto

lemma Split_Join:
  assumes "toks \<noteq> []" and "\<forall>t\<in>set toks. c \<notin> set t"
  shows "Split (Join toks [c]) [c] = toks"
proof -
  have "Split_loop [c] [] (Join toks [c]) 0 = toks"
    using assms
  proof (induction toks "[c]" rule: Join.induct)
    case 1
    then show ?case by simp
  next
    case (2 x)
    then show ?case by (simp add: Split_loop_piece(1))
  next
    case (3 x y ys)
    then show ?case by (simp add: Split_loop_piece(2))
  qed
  then show ?thesis by (simp add: Split_def)
qed

lemma parseBools_loop_ok:
  "parseBools_loop (map (\<lambda>b. Sprint L True (DBool b)) bs) acc = Inr (acc @ bs)"
  by (induction bs arbitrary: acc) (simp_all add: ParseBool_def)

lemma parseInts_loop_ok:
  "list_all (\<lambda>i. - (2 ^ 31) \<le> i \<and> i < 2 ^ 31) is \<Longrightarrow>
     parseInts_loop (map (\<lambda>i. Sprint L True (DInt i)) is) acc = Inr (acc @ is)"
proof (induction "is" arbitrary: acc)
  case Nil
  show ?case by simp
next
  case (Cons i "is")
  then have "ParseInt (FormatInt i) 32 = Inr i"
    using ParseInt_FormatInt [of 32 i] by simp
  with Cons show ?case by simp
qed

lemma parseInt64s_loop_ok:
  "list_all (\<lambda>i. - (2 ^ 63) \<le> i \<and> i < 2 ^ 63) is \<Longrightarrow>
     parseInt64s_loop (map (\<lambda>i. Sprint L True (DInt i)) is) acc = Inr (acc @ is)"
proof (induction "is" arbitrary: acc)
  case Nil
  show ?case by simp
next
  case (Cons i "is")
  then have "ParseInt (FormatInt i) 64 = Inr i"
    using ParseInt_FormatInt [of 64 i] by simp
  with Cons show ?case by simp
qed

lemma parseUints_loop_ok:
  "list_all (\<lambda>n. n < 2 ^ 32) ns \<Longrightarrow>
     parseUints_loop (map (\<lambda>n. Sprint L True (DUint n)) ns) acc = Inr (acc @ ns)"
proof (induction ns arbitrary: acc)
  case Nil
  show ?case by simp
next
  case (Cons n ns)
  then have "ParseUint (FormatUint n) 32 = Inr n"
    using ParseUint_FormatUint [of 32 n] by simp
  with Cons show ?case by simp
qed

lemma parseUint64s_loop_ok:
  "list_all (\<lambda>n. n < 2 ^ 64) ns \<Longrightarrow>
     parseUint64s_loop (map (\<lambda>n. Sprint L True (DUint n)) ns) acc = Inr (acc @ ns)"
proof (induction ns arbitrary: acc)
  case Nil
  show ?case by simp
next
  case (Cons n ns)
  then have "ParseUint (FormatUint n) 64 = Inr n"
    using ParseUint_FormatUint [of 64 n] by simp
  with Cons show ?case by simp
qed

lemma parseDurations_loop_ok:
  "list_all (\<lambda>x. - (2 ^ 63) \<le> x \<and> x < 2 ^ 63
       \<and> (fracExact (DurationFrac L) \<or> x mod 10 ^ 9 = 0)) xs \<Longrightarrow>
     parseDurations_loop L (map (\<lambda>x. Sprint L True (DDuration x)) xs) acc = Inr (acc @ xs)"
proof (induction xs arbitrary: acc)
  case Nil
  show ?case by simp
next
  case (Cons x xs)
  then have "ParseDuration (DurationFrac L) (DurationString x) = Some x"
    using ParseDuration_DurationString [of x "DurationFrac L"] by simp
  with Cons show ?case by simp
qed

lemma parseFloat32s_loop_ok:
  "list_all (\<lambda>x. ParseFloat L (FormatFloat L x 32) 32 = Some x) xs \<Longrightarrow>
     parseFloat32s_loop L (map (\<lambda>x. Sprint L True (DFloat32 x)) xs) acc = Inr (acc @ xs)"
  by (induction xs arbitrary: acc) simp_all

lemma parseFloat64s_loop_ok:
  "list_all (\<lambda>x. ParseFloat L (FormatFloat L x 64) 64 = Some x) xs \<Longrightarrow>
     parseFloat64s_loop L (map (\<lambda>x. Sprint L True (DFloat64 x)) xs) acc = Inr (acc @ xs)"
  by (induction xs arbitrary: acc) simp_all

text \<open>
  The elements of a slice whose elements are fine for an element type are all of the
  constructor of that type.
\<close>

lemma scalarOK_elements:
  assumes "list_all (scalarOK L e) xs"
    and "\<And>x. scalarOK L e x \<Longrightarrow> \<exists>v. x = C v \<and> P v"
  shows "\<exists>vs. xs = map C vs \<and> list_all P vs"
  using assms(1)
proof (induction xs)
  case Nil
  show ?case by simp
next
  case (Cons x xs)
  then obtain vs where "xs = map C vs \<and> list_all P vs" by auto
  moreover from Cons.prems assms(2) [of x] obtain v where "x = C v \<and> P v" by auto
  ultimately have "x # xs = map C (v # vs) \<and> list_all P (v # vs)" by simp
  then show ?case by (rule exI)
qed

lemma scalarOK_strings:
  "list_all (scalarOK L TString) xs \<Longrightarrow> \<exists>ss. xs = map DString ss \<and> list_all (\<lambda>s. True) ss"
proof (rule scalarOK_elements)
  fix x :: "'a datum" assume "scalarOK L TString x"
  then show "\<exists>v. x = DString v \<and> True" by (cases x) (simp_all add: scalarOK_def)
qed

lemma scalarOK_bools:
  "list_all (scalarOK L TBool) xs \<Longrightarrow> \<exists>bs. xs = map DBool bs \<and> list_all (\<lambda>s. True) bs"
proof (rule scalarOK_elements)
  fix x :: "'a datum" assume "scalarOK L TBool x"
  then show "\<exists>v. x = DBool v \<and> True" by (cases x) (simp_all add: scalarOK_def)
qed

lemma intBits_not_uint: "intBits e = Some bits \<Longrightarrow> uintBits e = None \<and> e \<noteq> TDuration"
  by (cases e) simp_all

lemma uintBits_not_int: "uintBits e = Some bits \<Longrightarrow> intBits e = None \<and> e \<noteq> TDuration"
  by (cases e) simp_all

lemma scalarOK_ints:
  assumes "intBits e = Some bits"
  shows "list_all (scalarOK L e) xs \<Longrightarrow>
    \<exists>is. xs = map DInt is \<and> list_all (\<lambda>i. - (2 ^ (bits - 1)) \<le> i \<and> i < 2 ^ (bits - 1)) is"
proof (rule scalarOK_elements)
  fix x :: "'a datum" assume "scalarOK L e x"
  with assms intBits_not_uint [OF assms]
  show "\<exists>v. x = DInt v \<and> (- (2 ^ (bits - 1)) \<le> v \<and> v < 2 ^ (bits - 1))"
    by (cases x; cases e) (simp_all add: scalarOK_def)
qed

lemma scalarOK_uints:
  assumes "uintBits e = Some bits"
  shows "list_all (scalarOK L e) xs \<Longrightarrow>
    \<exists>ns. xs = map DUint ns \<and> list_all (\<lambda>n. n < 2 ^ bits) ns"
proof (rule scalarOK_elements)
  fix x :: "'a datum" assume "scalarOK L e x"
  with assms uintBits_not_int [OF assms]
  show "\<exists>v. x = DUint v \<and> v < 2 ^ bits"
    by (cases x; cases e) (simp_all add: scalarOK_def)
qed

lemma scalarOK_durations:
  "list_all (scalarOK L TDuration) xs \<Longrightarrow>
    \<exists>ds. xs = map DDuration ds
      \<and> list_all (\<lambda>x. - (2 ^ 63) \<le> x \<and> x < 2 ^ 63
            \<and> (fracExact (DurationFrac L) \<or> x mod 10 ^ 9 = 0)) ds"
proof (rule scalarOK_elements)
  fix x :: "'a datum" assume "scalarOK L TDuration x"
  then show "\<exists>v. x = DDuration v \<and> (- (2 ^ 63) \<le> v \<and> v < 2 ^ 63
            \<and> (fracExact (DurationFrac L) \<or> v mod 10 ^ 9 = 0))"
    by (cases x) (simp_all add: scalarOK_def)
qed

lemma scalarOK_float32s:
  "list_all (scalarOK L TFloat32) xs \<Longrightarrow>
    \<exists>vs. xs = map DFloat32 vs \<and> list_all (\<lambda>x. ParseFloat L (FormatFloat L x 32) 32 = Some x) vs"
proof (rule scalarOK_elements)
  fix x :: "'a datum" assume "scalarOK L TFloat32 x"
  then show "\<exists>v. x = DFloat32 v \<and> ParseFloat L (FormatFloat L v 32) 32 = Some v"
    by (cases x) (simp_all add: scalarOK_def)
qed

lemma scalarOK_float64s:
  "list_all (scalarOK L TFloat64) xs \<Longrightarrow>
    \<exists>vs. xs = map DFloat64 vs \<and> list_all (\<lambda>x. ParseFloat L (FormatFloat L x 64) 64 = Some x) vs"
proof (rule scalarOK_elements)
  fix x :: "'a datum" assume "scalarOK L TFloat64 x"
  then show "\<exists>v. x = DFloat64 v \<and> ParseFloat L (FormatFloat L v 64) 64 = Some v"
    by (cases x) (simp_all add: scalarOK_def)
qed

lemma Sprint_no_comma:
  assumes "supportedElem e" and "scalarOK L e x" and "noComma L x"
  shows "CHR '','' \<notin> set (Sprint L True x)"
proof (cases x)
  case (DDuration d)
  with assms(2) have "- (2 ^ 63) \<le> d" "d < 2 ^ 63"
    "fracExact (DurationFrac L) \<or> d mod 10 ^ 9 = 0"
    by (simp_all add: scalarOK_def)
  from ParseDuration_DurationString [OF this] DDuration show ?thesis by simp
qed (use assms in \<open>simp_all add: scalarOK_def noComma_def comma_notin_FormatInt
       comma_notin_FormatUint supportedElem_def\<close>)

lemma handleSlice_round_trip:
  assumes "roundTrips L (TSlice e) (DSlice xs)" and "ftype t = TSlice e"
  shows "handleSlice L t (Join (map (Sprint L True) xs) '','') '','' = SetValue t (DSlice xs)"
proof -
  from assms(1) have e: "supportedElem e"
    and ne: "xs \<noteq> []" and ok: "list_all (scalarOK L e) xs" and nc: "list_all (noComma L) xs"
    by (simp_all add: roundTrips_def)
  have "\<forall>s\<in>set (map (Sprint L True) xs). CHR '','' \<notin> set s"
    using ok nc Sprint_no_comma [OF e, of L] by (auto simp: list_all_iff)
  with ne have split: "Split (Join (map (Sprint L True) xs) '','') '','' = map (Sprint L True) xs"
    using Split_Join [of "map (Sprint L True) xs" "CHR '',''"] by simp
  from e consider "e = TString" | "e = TBool" | "e = TInt" | "e = TUint" | "e = TInt64"
    | "e = TUint64" | "e = TFloat32" | "e = TFloat64" | "e = TDuration"
    by (auto simp: supportedElem_def)
  then show ?thesis
  proof cases
    case 1
    with ok obtain ss where "xs = map DString ss" using scalarOK_strings by blast
    with 1 assms(2) split show ?thesis
      by (simp add: handleSlice_def comp_def)
  next
    case 2
    with ok obtain bs where "xs = map DBool bs" using scalarOK_bools by blast
    with 2 assms(2) split parseBools_loop_ok [of L bs "[]"] show ?thesis
      by (simp add: handleSlice_def comp_def parseBools_def)
  next
    case 3
    with ok scalarOK_ints [of TInt 32 L xs] obtain "is" where "xs = map DInt is"
      "list_all (\<lambda>i. - (2 ^ 31) \<le> i \<and> i < 2 ^ 31) is" by auto
    with 3 assms(2) split parseInts_loop_ok [of "is" L "[]"] show ?thesis
      by (simp add: handleSlice_def comp_def parseInts_def)
  next
    case 4
    with ok scalarOK_uints [of TUint 32 L xs] obtain ns where "xs = map DUint ns"
      "list_all (\<lambda>n. n < 2 ^ 32) ns" by auto
    with 4 assms(2) split parseUints_loop_ok [of ns L "[]"] show ?thesis
      by (simp add: handleSlice_def comp_def parseUints_def)
  next
    case 5
    with ok scalarOK_ints [of TInt64 64 L xs] obtain "is" where "xs = map DInt is"
      "list_all (\<lambda>i. - (2 ^ 63) \<le> i \<and> i < 2 ^ 63) is" by auto
    with 5 assms(2) split parseInt64s_loop_ok [of "is" L "[]"] show ?thesis
      by (simp add: handleSlice_def comp_def parseInt64s_def)
  next
    case 6
    with ok scalarOK_uints [of TUint64 64 L xs] obtain ns where "xs = map DUint ns"
      "list_all (\<lambda>n. n < 2 ^ 64) ns" by auto
    with 6 assms(2) split parseUint64s_loop_ok [of ns L "[]"] show ?thesis
      by (simp add: handleSlice_def comp_def parseUint64s_def)
  next
    case 7
    with ok scalarOK_float32s [of L xs] obtain vs where vs: "xs = map DFloat32 vs"
      "list_all (\<lambda>x. ParseFloat L (FormatFloat L x 32) 32 = Some x) vs" by auto
    from parseFloat32s_loop_ok [OF vs(2), of "[]"] 7 assms(2) split vs(1) show ?thesis
      by (simp add: handleSlice_def comp_def parseFloat32s_def)
  next
    case 8
    with ok scalarOK_float64s [of L xs] obtain vs where vs: "xs = map DFloat64 vs"
      "list_all (\<lambda>x. ParseFloat L (FormatFloat L x 64) 64 = Some x) vs" by auto
    from parseFloat64s_loop_ok [OF vs(2), of "[]"] 8 assms(2) split vs(1) show ?thesis
      by (simp add: handleSlice_def comp_def parseFloat64s_def)
  next
    case 9
    with ok scalarOK_durations [of L xs] obtain ds where ds: "xs = map DDuration ds"
      "list_all (\<lambda>x. - (2 ^ 63) \<le> x \<and> x < 2 ^ 63
            \<and> (fracExact (DurationFrac L) \<or> x mod 10 ^ 9 = 0)) ds" by auto
    from parseDurations_loop_ok [OF ds(2), of "[]"] 9 assms(2) split ds(1) show ?thesis
      by (simp add: handleSlice_def comp_def parseDurations_def)
  qed
qed

lemma field_round_trip:
  assumes "roundTrips L (ftype f) (fvalue f)" and "fexported f"
    and "ftype t = ftype f" and "ftag t = ftag f" and "fexported t = fexported f"
  shows "parseValue L t (fieldText L f) = (None, f)"
proof -
  have same: "SetValue t (fvalue f) = (None, f)"
    using assms(2-5) by (cases t; cases f) (simp add: SetValue_def)
  show ?thesis
  proof (cases "Kind (ftype f) = KSlice")
    case True
    then obtain e where e: "ftype f = TSlice e" by (cases "ftype f") simp_all
    with assms(1) obtain xs where xs: "fvalue f = DSlice xs"
      by (cases "fvalue f") (simp_all add: roundTrips_def)
    from assms(1) e xs assms(3)
    have "handleSlice L t (Join (map (Sprint L True) xs) '','') '','' = SetValue t (DSlice xs)"
      by (intro handleSlice_round_trip) simp_all
    with e xs assms(2,3) same show ?thesis
      by (simp add: parseValue_def fieldText_def)
  next
    case False
    with assms(1) have "scalarOK L (ftype f) (fvalue f)"
      by (cases "ftype f") (simp_all add: roundTrips_def)
    with assms(3) have "parseValue L t (Sprint L True (fvalue f)) = SetValue t (fvalue f)"
      using parseValue_scalar_round_trip [of L t "fvalue f"] by simp
    with False assms(2) same show ?thesis by (simp add: fieldText_def)
  qed
qed

lemma round_trip_loop:
  assumes "\<forall>f\<in>set fs. \<exists>which tag. lookupTag (ftag f) = Some (which, tag)
             \<and> mapIndex (dictOf m which) (p @ ''/'' @ tag) = Some (fieldText L f)"
    and "\<forall>f\<in>set fs. fexported f"
    and "\<forall>f\<in>set fs. roundTrips L (ftype f) (fvalue f)"
    and "map ftype ts = map ftype fs" and "map ftag ts = map ftag fs"
    and "map fexported ts = map fexported fs"
  shows "Unmarshal_loop L m p ts = (None, fs)"
  using assms
proof (induction fs arbitrary: ts)
  case Nil
  then show ?case by simp
next
  case (Cons f fs)
  from Cons.prems(4) obtain t ts' where ts: "ts = t # ts'" by (cases ts) auto
  with Cons.prems(4,5,6) have t: "ftype t = ftype f" "ftag t = ftag f" "fexported t = fexported f"
    and ts': "map ftype ts' = map ftype fs" "map ftag ts' = map ftag fs"
      "map fexported ts' = map fexported fs"
    by simp_all
  from Cons.prems(1) obtain which tag where tag: "lookupTag (ftag f) = Some (which, tag)"
    and found: "mapIndex (dictOf m which) (p @ ''/'' @ tag) = Some (fieldText L f)"
    by auto
  from Cons.prems(2,3) t have parsed: "parseValue L t (fieldText L f) = (None, f)"
    by (intro field_round_trip) simp_all
  have "Unmarshal_loop L m p ts' = (None, fs)"
    using Cons.prems(1,2,3) ts' by (intro Cons.IH) simp_all
  with ts t tag found parsed show ?case by simp
qed

text \<open>
  Claim C1, as stated, fails, in the ways that follow.

  \<^item> A string with a comma in a \<^verbatim>\<open>[]string\<close> comes back as two strings.
  \<^item> An \<^verbatim>\<open>int\<close> or a \<^verbatim>\<open>uint\<close> beyond 32 bits (they are 64 bits wide) is written by
    \<^verbatim>\<open>Marshal\<close> and rejected by \<^verbatim>\<open>Unmarshal\<close>.
  \<^item> An empty slice is written as the empty string, which comes back as the slice of one
    empty string, or is rejected when the elements are not strings.
  \<^item> Of two fields with the same tag the second overwrites what the first has written,
    and both come back with the value of the second.
  \<^item> The same happens to a label and an annotation of the same name when \<^verbatim>\<open>Labels\<close> and
    \<^verbatim>\<open>Annotations\<close> refer to one map object.
  \<^item> An unexported field is written by \<^verbatim>\<open>Marshal\<close>, and \<^verbatim>\<open>Unmarshal\<close> panics when it sets
    it.
\<close>

theorem C1_counterexample:
  "Unmarshal noFloats
       (snd (Marshal noFloats (TwoMaps None None)
          (PointerToStruct [\<lparr>ftype = TSlice TString, ftag = [(''label'', ''skills'')],
                              fexported = True, fvalue = DSlice [DString ''a,b'']\<rparr>]) ''p''))
       (PointerToStruct [\<lparr>ftype = TSlice TString, ftag = [(''label'', ''skills'')],
                           fexported = True, fvalue = DSlice [DString ''a,b'']\<rparr>]) ''p''
     = (None, PointerToStruct [\<lparr>ftype = TSlice TString, ftag = [(''label'', ''skills'')],
                                 fexported = True, fvalue = DSlice [DString ''a'', DString ''b'']\<rparr>])
   \<and> Unmarshal noFloats
       (snd (Marshal noFloats (TwoMaps None None)
          (PointerToStruct [\<lparr>ftype = TInt, ftag = [(''annotation'', ''id'')],
                              fexported = True, fvalue = DInt 2147483648\<rparr>]) ''p''))
       (PointerToStruct [\<lparr>ftype = TInt, ftag = [(''annotation'', ''id'')],
                           fexported = True, fvalue = DInt 2147483648\<rparr>]) ''p''
     = (Some ErrConversion,
        PointerToStruct [\<lparr>ftype = TInt, ftag = [(''annotation'', ''id'')],
                           fexported = True, fvalue = DInt 2147483648\<rparr>])
   \<and> Unmarshal noFloats
       (snd (Marshal noFloats (TwoMaps None None)
          (PointerToStruct [\<lparr>ftype = TUint, ftag = [(''label'', ''age'')],
                              fexported = True, fvalue = DUint 4294967296\<rparr>]) ''p''))
       (PointerToStruct [\<lparr>ftype = TUint, ftag = [(''label'', ''age'')],
                           fexported = True, fvalue = DUint 4294967296\<rparr>]) ''p''
     = (Some ErrConversion,
        PointerToStruct [\<lparr>ftype = TUint, ftag = [(''label'', ''age'')],
                           fexported = True, fvalue = DUint 4294967296\<rparr>])
   \<and> Unmarshal noFloats
       (snd (Marshal noFloats (TwoMaps None None)
          (PointerToStruct [\<lparr>ftype = TSlice TString, ftag = [(''label'', ''skills'')],
                              fexported = True, fvalue = DSlice []\<rparr>]) ''p''))
       (PointerToStruct [\<lparr>ftype = TSlice TString, ftag = [(''label'', ''skills'')],
                           fexported = True, fvalue = DSlice []\<rparr>]) ''p''
     = (None, PointerToStruct [\<lparr>ftype = TSlice TString, ftag = [(''label'', ''skills'')],
                                 fexported = True, fvalue = DSlice [DString '''']\<rparr>])
   \<and> Unmarshal noFloats
       (snd (Marshal noFloats (TwoMaps None None)
          (PointerToStruct [\<lparr>ftype = TSlice TInt, ftag = [(''label'', ''ports'')],
                              fexported = True, fvalue = DSlice []\<rparr>]) ''p''))
       (PointerToStruct [\<lparr>ftype = TSlice TInt, ftag = [(''label'', ''ports'')],
                           fexported = True, fvalue = DSlice []\<rparr>]) ''p''
     = (Some ErrConversion,
        PointerToStruct [\<lparr>ftype = TSlice TInt, ftag = [(''label'', ''ports'')],
                           fexported = True, fvalue = DSlice []\<rparr>])
   \<and> Unmarshal noFloats
       (snd (Marshal noFloats (TwoMaps None None)
          (PointerToStruct [\<lparr>ftype = TString, ftag = [(''annotation'', ''name'')],
                              fexported = True, fvalue = DString ''first''\<rparr>,
                            \<lparr>ftype = TString, ftag = [(''annotation'', ''name'')],
                              fexported = True, fvalue = DString ''second''\<rparr>]) ''p''))
       (PointerToStruct [\<lparr>ftype = TString, ftag = [(''annotation'', ''name'')],
                           fexported = True, fvalue = DString ''''\<rparr>,
                         \<lparr>ftype = TString, ftag = [(''annotation'', ''name'')],
                           fexported = True, fvalue = DString ''''\<rparr>]) ''p''
     = (None, PointerToStruct [\<lparr>ftype = TString, ftag = [(''annotation'', ''name'')],
                                 fexported = True, fvalue = DString ''second''\<rparr>,
                               \<lparr>ftype = TString, ftag = [(''annotation'', ''name'')],
                                 fexported = True, fvalue = DString ''second''\<rparr>])
   \<and> Unmarshal noFloats
       (snd (Marshal noFloats (OneMap Map.empty)
          (PointerToStruct [\<lparr>ftype = TString, ftag = [(''annotation'', ''name'')],
                              fexported = True, fvalue = DString ''first''\<rparr>,
                            \<lparr>ftype = TString, ftag = [(''label'', ''name'')],
                              fexported = True, fvalue = DString ''second''\<rparr>]) ''p''))
       (PointerToStruct [\<lparr>ftype = TString, ftag = [(''annotation'', ''name'')],
                           fexported = True, fvalue = DString ''''\<rparr>,
                         \<lparr>ftype = TString, ftag = [(''label'', ''name'')],
                           fexported = True, fvalue = DString ''''\<rparr>]) ''p''
     = (None, PointerToStruct [\<lparr>ftype = TString, ftag = [(''annotation'', ''name'')],
                                 fexported = True, fvalue = DString ''second''\<rparr>,
                               \<lparr>ftype = TString, ftag = [(''label'', ''name'')],
                                 fexported = True, fvalue = DString ''second''\<rparr>])
   \<and> Unmarshal noFloats
       (snd (Marshal noFloats (TwoMaps None None)
          (PointerToStruct [\<lparr>ftype = TString, ftag = [(''annotation'', ''name'')],
                              fexported = False, fvalue = DString ''John''\<rparr>]) ''p''))
       (PointerToStruct [\<lparr>ftype = TString, ftag = [(''annotation'', ''name'')],
                           fexported = False, fvalue = DString ''''\<rparr>]) ''p''
     = (Some Panic, PointerToStruct [\<lparr>ftype = TString, ftag = [(''annotation'', ''name'')],
                                       fexported = False, fvalue = DString ''''\<rparr>])"
  by (simp add: eval_parse eval_format parseInts_def)

text \<open>
  Claim C1, amended. For a record

  \<^item> whose fields are all exported and have a recognised tag,
  \<^item> no two of them writing the same key of the same map object (the same dictionary,
    or either dictionary when \<^verbatim>\<open>Labels\<close> and \<^verbatim>\<open>Annotations\<close> refer to one map object),
  \<^item> and whose values are those of \<open>roundTrips\<close>: strings, booleans, integers (of \<^verbatim>\<open>int\<close>
    and \<^verbatim>\<open>uint\<close>, those that fit 32 bits), durations, floating-point and complex
    numbers, and non-empty slices of the nine element types with no comma in the text
    of an element; for a duration that is not a whole number of seconds, for a
    floating-point and for a complex number, under the condition on the
    floating-point library that \<open>scalarOK\<close> and \<open>noComma\<close> state,

  \<^verbatim>\<open>Marshal\<close> returns no error, and \<^verbatim>\<open>Unmarshal\<close> of the resulting metadata, with the same
  prefix, into any record of the same struct type returns no error and leaves the record
  equal to the original.
\<close>

theorem C1_round_trip:
  assumes "distinct (writtenCells metadata prefix fs)"
    and "\<forall>f\<in>set fs. lookupTag (ftag f) \<noteq> None"
    and "\<forall>f\<in>set fs. fexported f"
    and "\<forall>f\<in>set fs. roundTrips L (ftype f) (fvalue f)"
    and "map ftype target = map ftype fs" and "map ftag target = map ftag fs"
    and "map fexported target = map fexported fs"
  shows "fst (Marshal L metadata (PointerToStruct fs) prefix) = None
    \<and> Unmarshal L (snd (Marshal L metadata (PointerToStruct fs) prefix))
          (PointerToStruct target) prefix
        = (None, PointerToStruct fs)"
proof -
  define m' where "m' = snd (Marshal L metadata (PointerToStruct fs) prefix)"
  have stored: "\<exists>which tag. lookupTag (ftag f) = Some (which, tag)
             \<and> mapIndex (dictOf m' which) (prefix @ ''/'' @ tag) = Some (fieldText L f)"
    if f: "f \<in> set fs" for f
  proof -
    from f assms(2) obtain which tag where tag: "lookupTag (ftag f) = Some (which, tag)"
      by auto
    from f obtain before rest where fs: "fs = before @ f # rest"
      by (auto simp: in_set_conv_decomp)
    from assms(1) tag
    have "(mapObject metadata which, prefix @ ''/'' @ tag) \<notin> set (writtenCells metadata prefix rest)"
      unfolding fs by (simp add: writtenCells_append writtenCells_Cons)
    from Marshal_stores [OF tag this refl, of L before] tag show ?thesis
      by (simp add: m'_def fs)
  qed
  then have "\<forall>f\<in>set fs. \<exists>which tag. lookupTag (ftag f) = Some (which, tag)
             \<and> mapIndex (dictOf m' which) (prefix @ ''/'' @ tag) = Some (fieldText L f)"
    by blast
  from round_trip_loop [OF this assms(3-7)]
  have "Unmarshal_loop L m' prefix target = (None, fs)" .
  then show ?thesis
    by (simp add: Unmarshal_def m'_def Marshal_no_error)
qed

theorem C1_witness:
  "Unmarshal noFloats
       (snd (Marshal noFloats (TwoMaps None None)
          (PointerToStruct exampleFields) ''prefix''))
       (PointerToStruct zeroFields) ''prefix''
     = (None, PointerToStruct exampleFields)
   \<and> Unmarshal noFloats
       (snd (Marshal noFloats (OneMap [''other'' \<mapsto> ''kept''])
          (PointerToStruct timingFields) ''prefix''))
       (PointerToStruct zeroTimingFields) ''prefix''
     = (None, PointerToStruct timingFields)
   \<and> Unmarshal wholeFloats
       (snd (Marshal wholeFloats (TwoMaps None None)
          (PointerToStruct floatFields) ''prefix''))
       (PointerToStruct zeroFloatFields) ''prefix''
     = (None, PointerToStruct floatFields)"
  using C1_round_trip [where L = noFloats and prefix = "''prefix''" and fs = exampleFields
      and target = zeroFields and metadata = "TwoMaps None None"]
    C1_round_trip [where L = noFloats and prefix = "''prefix''" and fs = timingFields
      and target = zeroTimingFields and metadata = "OneMap [''other'' \<mapsto> ''kept'']"]
    C1_round_trip [where L = wholeFloats and prefix = "''prefix''" and fs = floatFields
      and target = zeroFloatFields and metadata = "TwoMaps None None"]
    fracExact_noFloats
  by (simp add: exampleFields_def zeroFields_def timingFields_def zeroTimingFields_def
        floatFields_def zeroFloatFields_def wholeFloats_def
        writtenCells_def writtenKeys_def fieldKey_def lookupTag_def Lookup_def roundTrips_def
        scalarOK_def noComma_def supportedElem_def mapObject_def sameMap_def
        ParseInt_FormatInt comma_notin_FormatInt)

end
